theory Spec2Isabelle
  imports Complex_Main "HOL-Library.AList"
begin

section \<open>Numbers, time and randomness\<close>

text \<open>
  The program is JavaScript; every quantity (health, damage, distances, timestamps) is a
  JavaScript Number. The development idealises Numbers as \<^typ>\<open>real\<close>: \<open>Math.sqrt\<close> is
  \<^const>\<open>sqrt\<close>, \<open>Math.pow(a, n)\<close> for a literal \<open>n\<close> is \<open>a ^ n\<close>, \<open>Math.min\<close> and
  \<open>Math.max\<close> are \<^const>\<open>min\<close> and \<^const>\<open>max\<close>, \<open>Math.floor\<close> is \<^const>\<open>floor\<close>.
  The concrete inputs evaluated below use values whose arithmetic is exact in binary
  floating point as well (small integers and dyadic fractions): there the values of the
  model are the values the program computes.

  \<open>Date.now()\<close> and \<open>Math.random()\<close> are inputs of the model: each function takes the
  clock readings and the random draws it consumes as explicit arguments. A draw of
  \<open>Math.random()\<close> lies in \<open>[0, 1)\<close>.

  The methods that only append cosmetic fragments to the global pools
  (\<open>spawnMicroDebrisBurst\<close>, \<open>spawnDustCloud\<close>, \<open>spawnDustPuff\<close>) are recorded as
  effects, in the order of the calls, together with the detaching of sticky bombs by
  \<open>startCollapse\<close>.
\<close>

section \<open>Radial falloff\<close>

text \<open>
  The expression \<open>Math.pow(1 - Math.min(1, distance / maxDistance), p)\<close>: \<open>p = 3\<close> in
  \<open>Building.takeDamage\<close>, \<open>p = 2\<close> in \<open>UFOLaser.update\<close> and \<open>RobotHandLaser.update\<close>.
\<close>

definition falloff :: "nat \<Rightarrow> real \<Rightarrow> real \<Rightarrow> real" where
  "falloff p distance maxDistance = (1 - min 1 (distance / maxDistance)) ^ p"

text \<open>
  The factor by which \<open>Building.takeDamage\<close> scales \<open>adjustedDamage\<close>: the falloff is
  computed only under the guard \<open>distance > 0 && maxDistance > 0\<close>, otherwise the
  damage is applied in full.
\<close>

definition damageFactor :: "real \<Rightarrow> real \<Rightarrow> real" where
  "damageFactor distance maxDistance =
     (if distance > 0 \<and> maxDistance > 0 then falloff 3 distance maxDistance else 1)"

section \<open>Building\<close>

datatype building_state = Alive | Collapsing | Collapsed

datatype canvas = Canvas

record scar =
  scar_x :: real
  scar_y :: real
  scar_radius :: real
  scar_opacity :: real

datatype effect =
    SpawnMicroDebrisBurst nat
  | SpawnDustCloud nat
  | SpawnDustPuff real
  | DetachStickyBombs
  | SpawnCollapseDebrisBurst real
  | SpawnFinalCollapseDebris
  | CreateFireEmitter real real
  | SpawnBridgeDebris nat

record building =
  pos_x :: real
  pos_y :: real
  width :: real
  height :: real
  maxHealth :: real
  health :: real
  materialResistance :: real
  state :: building_state
  destroyed :: bool
  collapsing :: bool
  collapseStartTime :: "real option"
  collapseDuration :: real
  lastDebrisSpawn :: real
  debrisSpawnInterval :: real
  shakeX :: real
  shakeY :: real
  collapseTilt :: real
  collapseSink :: real
  damageStage :: nat
  previousDamageStage :: nat
  crackCache :: "canvas option"
  impactScars :: "scar list"
  impactScarCache :: "canvas option"
  lastHitTime :: real

text \<open>The clock readings and random draws of one call of \<open>takeDamage\<close>.\<close>

record hit_env =
  now :: real
  nowCollapseStart :: real
  nowLastDebris :: real
  rScarX :: real
  rScarY :: real
  rShakeX :: real
  rShakeY :: real
  rTilt :: real

definition getCenterX :: "building \<Rightarrow> real" where
  "getCenterX b = pos_x b + width b / 2"

definition getCenterY :: "building \<Rightarrow> real" where
  "getCenterY b = pos_y b + height b / 2"

text \<open>The chain of comparisons on \<open>healthPercent\<close> in \<open>takeDamage\<close>.\<close>

definition stageOf :: "real \<Rightarrow> nat" where
  "stageOf healthPercent =
     (if healthPercent \<le> 0 then 3
      else if healthPercent \<le> 0.20 then 3
      else if healthPercent \<le> 0.50 then 2
      else if healthPercent \<le> 0.75 then 1
      else 0)"

definition addImpactScar :: "real \<Rightarrow> real \<Rightarrow> real \<Rightarrow> building \<Rightarrow> building" where
  "addImpactScar localX localY radius b =
     b\<lparr>impactScars := impactScars b @
          [\<lparr>scar_x = localX, scar_y = localY, scar_radius = radius, scar_opacity = 0.6\<rparr>],
       impactScarCache := None\<rparr>"

definition applyShake :: "real \<Rightarrow> real \<Rightarrow> real \<Rightarrow> building \<Rightarrow> building" where
  "applyShake r1 r2 intensity b =
     b\<lparr>shakeX := (r1 - 0.5) * intensity, shakeY := (r2 - 0.5) * intensity\<rparr>"

definition startCollapse :: "hit_env \<Rightarrow> building \<Rightarrow> building \<times> effect list" where
  "startCollapse e b =
     (if state b \<noteq> Alive then (b, [])
      else (b\<lparr>state := Collapsing,
              collapseStartTime := Some (nowCollapseStart e),
              lastDebrisSpawn := nowLastDebris e,
              collapseTilt := (rTilt e - 0.5) * 0.1,
              collapseSink := 0\<rparr>,
            [DetachStickyBombs]))"

text \<open>
  \<open>takeDamage\<close>, block by block in the order of the source. First the resistance and the
  falloff, and the subtraction from \<open>health\<close>.
\<close>

definition applyFinalDamage :: "real \<Rightarrow> real \<Rightarrow> real \<Rightarrow> building \<Rightarrow> building" where
  "applyFinalDamage damage distance maxDistance b =
     (let adjustedDamage = damage * materialResistance b;
          finalDamage =
            (if distance > 0 \<and> maxDistance > 0
             then adjustedDamage * falloff 3 distance maxDistance
             else adjustedDamage)
      in b\<lparr>health := health b - finalDamage\<rparr>)"

text \<open>The damage stage is recomputed from the health fraction; the old one is kept.\<close>

definition updateDamageStage :: "building \<Rightarrow> building" where
  "updateDamageStage b =
     (let healthPercent = health b / maxHealth b;
          b1 = b\<lparr>previousDamageStage := damageStage b\<rparr>
      in b1\<lparr>damageStage := stageOf healthPercent\<rparr>)"

text \<open>The burst, the dust cloud and the invalidated caches when the stage has risen.\<close>

definition stageCrossing :: "building \<Rightarrow> building \<times> effect list" where
  "stageCrossing b =
     (if damageStage b > previousDamageStage b \<and> damageStage b > 0
      then (b\<lparr>crackCache := None, impactScarCache := None\<rparr>,
            SpawnMicroDebrisBurst (damageStage b) #
            (if damageStage b \<ge> 2 then [SpawnDustCloud (damageStage b)] else []))
      else (b, []))"

text \<open>The impact scar at the hit location.\<close>

definition impactScarAtHit :: "hit_env \<Rightarrow> real \<Rightarrow> real \<Rightarrow> building \<Rightarrow> building" where
  "impactScarAtHit e distance maxDistance b =
     (if distance > 0 \<and> distance < maxDistance
      then
        let impactX = pos_x b + width b / 2 + (rScarX e - 0.5) * width b * 0.3;
            impactY = pos_y b + height b * 0.3 + (rScarY e - 0.5) * height b * 0.4
        in addImpactScar (impactX - pos_x b) (impactY - pos_y b) (min 15 (maxDistance * 0.1)) b
      else b)"

text \<open>The rate-limited wobble and dust puff.\<close>

definition wobbleAndDust :: "hit_env \<Rightarrow> real \<Rightarrow> building \<Rightarrow> building \<times> effect list" where
  "wobbleAndDust e distance b =
     (let currentTime = now e
      in if currentTime - lastHitTime b > 100
         then ((applyShake (rShakeX e) (rShakeY e) (2 + real (damageStage b) * 1.5) b)
                 \<lparr>lastHitTime := currentTime\<rparr>,
               [SpawnDustPuff (if distance > 0 then distance else width b / 2)])
         else (b, []))"

text \<open>The clamp of the health at \<open>0\<close> and the start of the collapse.\<close>

definition collapseCheck :: "hit_env \<Rightarrow> building \<Rightarrow> building \<times> effect list" where
  "collapseCheck e b =
     (if health b \<le> 0
      then
        let b1 = b\<lparr>health := 0\<rparr>
        in if state b1 = Alive then startCollapse e b1 else (b1, [])
      else (b, []))"

definition takeDamage ::
  "hit_env \<Rightarrow> real \<Rightarrow> real \<Rightarrow> real \<Rightarrow> building \<Rightarrow> building \<times> effect list" where
  "takeDamage e damage distance maxDistance b =
     (if destroyed b then (b, [])
      else
        case stageCrossing (updateDamageStage (applyFinalDamage damage distance maxDistance b)) of
          (b1, fx1) \<Rightarrow>
            (case wobbleAndDust e distance (impactScarAtHit e distance maxDistance b1) of
               (b2, fx2) \<Rightarrow>
                 (case collapseCheck e b2 of
                    (b3, fx3) \<Rightarrow> (b3, fx1 @ fx2 @ fx3))))"

text \<open>The health after the subtraction of \<open>takeDamage\<close>, before the clamp at \<open>0\<close>.\<close>

definition newHealth :: "real \<Rightarrow> real \<Rightarrow> real \<Rightarrow> building \<Rightarrow> real" where
  "newHealth damage distance maxDistance b =
     health b - damage * materialResistance b * damageFactor distance maxDistance"

text \<open>
  The constructor. The four draws are those of \<open>maxHealth\<close>, \<open>materialResistance\<close>,
  \<open>collapseDuration\<close> and \<open>debrisSpawnInterval\<close>; the fields of the visual style are
  not modelled.
\<close>

definition Building_new ::
  "real \<Rightarrow> real \<Rightarrow> real \<Rightarrow> real \<Rightarrow> real \<Rightarrow> real \<Rightarrow> real \<Rightarrow> real \<Rightarrow> building" where
  "Building_new x y w h rHealth rResistance rDuration rInterval =
     \<lparr>pos_x = x, pos_y = y, width = w, height = h,
      maxHealth = 300 + rHealth * 200,
      health = 300 + rHealth * 200,
      materialResistance = 0.7 + rResistance * 0.6,
      state = Alive, destroyed = False, collapsing = False,
      collapseStartTime = None,
      collapseDuration = 900 + rDuration * 700,
      lastDebrisSpawn = 0,
      debrisSpawnInterval = 100 + rInterval * 80,
      shakeX = 0, shakeY = 0, collapseTilt = 0, collapseSink = 0,
      damageStage = 0, previousDamageStage = 0,
      crackCache = None, impactScars = [], impactScarCache = None,
      lastHitTime = 0\<rparr>"

text \<open>
  \<open>updateCollapse\<close>, block by block: the deformation, the forced stage 3, the
  progressive debris, the shake and the end of the collapse. \<open>nowT\<close> is the reading of
  \<open>Date.now()\<close>; \<open>rWobble\<close>, \<open>rShX\<close> and \<open>rShY\<close> are the three draws. A \<open>null\<close> start
  time counts as \<open>0\<close> in the subtraction, as in JavaScript.
\<close>

definition collapseDeform :: "real \<Rightarrow> real \<Rightarrow> building \<Rightarrow> building" where
  "collapseDeform progress rWobble b =
     (let b1 = b\<lparr>collapseTilt := collapseTilt b + (rWobble - 0.5) * 0.02 * progress\<rparr>;
          b2 = b1\<lparr>collapseTilt := max (- 0.3) (min 0.3 (collapseTilt b1))\<rparr>
      in b2\<lparr>collapseSink := progress * height b2 * 0.15\<rparr>)"

definition intensifyCracks :: "building \<Rightarrow> building" where
  "intensifyCracks b =
     (if damageStage b < 3 then b\<lparr>damageStage := 3, crackCache := None\<rparr> else b)"

definition progressiveDebris :: "real \<Rightarrow> real \<Rightarrow> building \<Rightarrow> building \<times> effect list" where
  "progressiveDebris nowT progress b =
     (if nowT - lastDebrisSpawn b \<ge> debrisSpawnInterval b
      then (b\<lparr>lastDebrisSpawn := nowT\<rparr>, [SpawnCollapseDebrisBurst progress])
      else (b, []))"

definition collapseShake :: "real \<Rightarrow> real \<Rightarrow> real \<Rightarrow> building \<Rightarrow> building" where
  "collapseShake progress rShX rShY b =
     b\<lparr>shakeX := (rShX - 0.5) * 3 * (1 - progress),
       shakeY := (rShY - 0.5) * 3 * (1 - progress)\<rparr>"

definition endCollapse :: "real \<Rightarrow> building \<Rightarrow> building \<times> effect list" where
  "endCollapse progress b =
     (if progress \<ge> 1
      then (b\<lparr>state := Collapsed, destroyed := True, collapsing := False\<rparr>,
            [SpawnFinalCollapseDebris])
      else (b, []))"

definition collapseProgress :: "real \<Rightarrow> building \<Rightarrow> real" where
  "collapseProgress nowT b =
     (let elapsed = nowT - (case collapseStartTime b of None \<Rightarrow> 0 | Some t \<Rightarrow> t)
      in min 1 (elapsed / collapseDuration b))"

definition updateCollapse ::
  "real \<Rightarrow> real \<Rightarrow> real \<Rightarrow> real \<Rightarrow> building \<Rightarrow> building \<times> effect list" where
  "updateCollapse nowT rWobble rShX rShY b =
     (if state b \<noteq> Collapsing then (b, [])
      else
        let progress = collapseProgress nowT b
        in case progressiveDebris nowT progress
                  (intensifyCracks (collapseDeform progress rWobble b)) of
             (b1, fx1) \<Rightarrow>
               (case endCollapse progress (collapseShake progress rShX rShY b1) of
                  (b2, fx2) \<Rightarrow> (b2, fx1 @ fx2)))"

text \<open>
  What the constructor establishes and the methods above keep: the legacy flag
  \<open>destroyed\<close> that \<open>takeDamage\<close> tests is set exactly when the state is \<open>collapsed\<close>.
\<close>

definition building_inv :: "building \<Rightarrow> bool" where
  "building_inv b \<longleftrightarrow>
     0 < maxHealth b \<and> 0 \<le> health b \<and> health b \<le> maxHealth b \<and>
     0 \<le> materialResistance b \<and>
     (destroyed b \<longleftrightarrow> state b = Collapsed) \<and>
     (state b \<noteq> Alive \<longrightarrow> health b = 0) \<and>
     damageStage b = stageOf (health b / maxHealth b)"

text \<open>A call of \<open>takeDamage\<close> with its arguments, and a run of such calls on one building.\<close>

record hit =
  h_env :: hit_env
  h_damage :: real
  h_distance :: real
  h_maxDistance :: real

fun takeDamages :: "hit list \<Rightarrow> building \<Rightarrow> (building \<times> building \<times> effect list) list" where
  "takeDamages [] b = []"
| "takeDamages (h # hs) b =
     (case takeDamage (h_env h) (h_damage h) (h_distance h) (h_maxDistance h) b of
        (b', fx) \<Rightarrow> (b, b', fx) # takeDamages hs b')"

definition bursts :: "effect list \<Rightarrow> nat" where
  "bursts fx = length (filter (\<lambda>f. case f of SpawnMicroDebrisBurst _ \<Rightarrow> True | _ \<Rightarrow> False) fx)"

definition dustClouds :: "effect list \<Rightarrow> nat" where
  "dustClouds fx = length (filter (\<lambda>f. case f of SpawnDustCloud _ \<Rightarrow> True | _ \<Rightarrow> False) fx)"

section \<open>Nuclear bomb\<close>

text \<open>
  The body of the \<open>buildings.forEach\<close> of \<open>NuclearBomb.explode\<close>, for one building: the
  bomb is at \<open>(bombX, y)\<close>. The environment holds the draws of \<open>takeDamage\<close>, of
  \<open>applyShake\<close> and of the fire emitter.
\<close>

record nuke_env =
  n_hit :: hit_env
  n_rShakeX :: real
  n_rShakeY :: real
  n_rFire :: real
  n_rFireX :: real
  n_rFireY :: real

definition nukeHit :: "nuke_env \<Rightarrow> real \<Rightarrow> real \<Rightarrow> building \<Rightarrow> building \<times> effect list" where
  "nukeHit e bombX y b =
     (if state b = Collapsed then (b, [])
      else
        let damageRadius = 200;
            centerX = getCenterX b;
            centerY = getCenterY b;
            distance = sqrt ((centerX - bombX) ^ 2 + (centerY - y) ^ 2)
        in if distance < damageRadius
           then
             let normalizedDist = distance / damageRadius;
                 falloffN = (1 - normalizedDist) ^ 3;
                 baseDamage = 120;
                 damage = baseDamage * falloffN
             in case takeDamage (n_hit e) damage distance damageRadius b of
                  (b1, fx) \<Rightarrow>
                    let shakeIntensity = falloffN * 15;
                        b2 = applyShake (n_rShakeX e) (n_rShakeY e) shakeIntensity b1;
                        fire =
                          (if health b2 / maxHealth b2 < 0.3 \<and> n_rFire e < 0.4
                           then [CreateFireEmitter
                                   (centerX + (n_rFireX e - 0.5) * width b2 * 0.5)
                                   (pos_y b2 + n_rFireY e * height b2 * 0.6)]
                           else [])
                    in (b2, fx @ fire)
           else (b, []))"

text \<open>\<open>NuclearBomb.explode\<close> on the list of buildings; \<open>e_of i\<close> serves building \<open>i\<close>.\<close>

record nuclear_bomb =
  nb_x :: real
  nb_y :: real
  nb_exploded :: bool

definition NuclearBomb_explode ::
  "(nat \<Rightarrow> nuke_env) \<Rightarrow> real \<Rightarrow> nuclear_bomb \<Rightarrow> building list \<Rightarrow>
     nuclear_bomb \<times> building list \<times> effect list" where
  "NuclearBomb_explode e_of y bomb bs =
     (if nb_exploded bomb then (bomb, bs, [])
      else
        let rs = map (\<lambda>(i, b). nukeHit (e_of i) (nb_x bomb) y b) (enumerate 0 bs)
        in (bomb\<lparr>nb_exploded := True\<rparr>, map fst rs, concat (map snd rs)))"

text \<open>The building of the nuclear-strike scenario: 400 health, resistance 1.\<close>

definition scenarioBuilding :: building where
  "scenarioBuilding = Building_new 0 0 100 200 (1/2) (1/2) 0 0"

definition quietEnv :: hit_env where
  "quietEnv = \<lparr>now = 1000, nowCollapseStart = 1000, nowLastDebris = 1000,
               rScarX = 1/2, rScarY = 1/2, rShakeX = 1/2, rShakeY = 1/2, rTilt = 1/2\<rparr>"

definition quietNukeEnv :: nuke_env where
  "quietNukeEnv = \<lparr>n_hit = quietEnv, n_rShakeX = 1/2, n_rShakeY = 1/2,
                   n_rFire = 1/2, n_rFireX = 1/2, n_rFireY = 1/2\<rparr>"

text \<open>The same building once its collapse has ended.\<close>

definition collapsedBuilding :: building where
  "collapsedBuilding =
     scenarioBuilding\<lparr>health := 0, state := Collapsed, destroyed := True, damageStage := 3\<rparr>"

text \<open>One call \<open>takeDamage(120, 0, 200)\<close>.\<close>

definition centreHit :: hit where
  "centreHit = \<lparr>h_env = quietEnv, h_damage = 120, h_distance = 0, h_maxDistance = 200\<rparr>"

section \<open>Bridge\<close>

text \<open>
  A segment refers to its bridge and the bridge to its segments; the model keeps the
  segments in the bridge and names a segment by its position in \<open>segments\<close> (what
  \<open>indexOf\<close> returns). A joint is its \<open>broken\<close> flag, \<open>None\<close> for \<open>null\<close>; the two sides of
  a segment are objects of their own. An entry of \<open>destructionSequence\<close> is the position
  of its segment and its break time.
\<close>

datatype segment_state = Intact | Damaged | Broken | Dynamic

datatype side = LeftSide | RightSide

record bridge_segment =
  baseX :: real
  baseY :: real
  seg_x :: real
  seg_y :: real
  seg_w :: real
  seg_h :: real
  seg_maxHealth :: real
  seg_health :: real
  seg_state :: segment_state
  isKinematic :: bool
  velocityX :: real
  velocityY :: real
  angularVelocity :: real
  mass :: real
  leftJoint :: "bool option"
  rightJoint :: "bool option"

record bridge =
  br_y :: real
  br_height :: real
  segments :: "bridge_segment list"
  towerWidth :: real
  towerHeight :: real
  leftTowerX :: real
  rightTowerX :: real
  leftTowerHealth :: real
  rightTowerHealth :: real
  swayVelocity :: real
  swayDamping :: real
  swayAmplitude :: real
  swayActive :: bool
  swayStartTime :: real
  destructionSequence :: "(nat \<times> real) list"

text \<open>
  The clock readings and draws of one segment break: \<open>schedNow i\<close> is the reading of
  \<open>Date.now()\<close> in iteration \<open>i\<close> of the scheduling loop; the two forced draws are those
  of the \<open>makeDynamic\<close> call of \<open>Bridge.update\<close>.
\<close>

record seg_env =
  sNow :: real
  rAmplitude :: real
  rSwayVelocity :: real
  rImpulse :: real
  rTorque :: real
  rBreakDelay :: real
  rBreakCount :: real
  schedNow :: "nat \<Rightarrow> real"
  rDebrisCount :: real
  rForcedImpulse :: real
  rForcedTorque :: real

definition makeDynamic :: "real \<Rightarrow> real \<Rightarrow> real \<Rightarrow> bridge_segment \<Rightarrow> bridge_segment" where
  "makeDynamic impulseX impulseY torque seg =
     (if isKinematic seg
      then seg\<lparr>isKinematic := False, seg_state := Dynamic,
               velocityX := velocityX seg + impulseX / mass seg,
               velocityY := velocityY seg + impulseY / mass seg,
               angularVelocity := angularVelocity seg + torque / mass seg\<rparr>
      else seg)"

definition breakJoint :: "side \<Rightarrow> bridge_segment \<Rightarrow> bridge_segment" where
  "breakJoint sd seg =
     (let seg1 = (if sd = LeftSide \<and> leftJoint seg \<noteq> None
                  then seg\<lparr>leftJoint := Some True\<rparr> else seg)
      in if sd = RightSide \<and> rightJoint seg1 \<noteq> None
         then seg1\<lparr>rightJoint := Some True\<rparr> else seg1)"

definition isMiddleIndex :: "bridge \<Rightarrow> nat \<Rightarrow> bool" where
  "isMiddleIndex br i =
     (let middleIndex = length (segments br) div 2
      in \<bar>int i - int middleIndex\<bar> \<le> 1)"

text \<open>The body of the scheduling loop, for the values of \<open>i\<close> in the list.\<close>

fun scheduleLoop :: "seg_env \<Rightarrow> real \<Rightarrow> nat \<Rightarrow> nat \<Rightarrow> nat list \<Rightarrow> bridge \<Rightarrow> bridge" where
  "scheduleLoop e breakDelay breakCount triggerIndex [] br = br"
| "scheduleLoop e breakDelay breakCount triggerIndex (i # rest) br =
     (let offset = int i - int (breakCount div 2);
          targetIndex = int triggerIndex + offset;
          br1 =
            (if targetIndex \<ge> 0 \<and> targetIndex < int (length (segments br))
             then
               let segment = segments br ! nat targetIndex
               in if seg_state segment \<noteq> Broken \<and> seg_state segment \<noteq> Dynamic
                  then
                    let delay = breakDelay + real i * 100
                    in br\<lparr>destructionSequence :=
                            destructionSequence br @ [(nat targetIndex, schedNow e i + delay)]\<rparr>
                  else br
             else br)
      in scheduleLoop e breakDelay breakCount triggerIndex rest br1)"

definition scheduleProgressiveDestruction :: "seg_env \<Rightarrow> nat \<Rightarrow> bridge \<Rightarrow> bridge" where
  "scheduleProgressiveDestruction e triggerIndex br =
     (if \<not> isMiddleIndex br triggerIndex then br
      else
        let breakDelay = 200 + rBreakDelay e * 400;
            breakCount = 3 + nat \<lfloor>rBreakCount e * 4\<rfloor>
        in scheduleLoop e breakDelay breakCount triggerIndex [0..<breakCount] br)"

definition startSway :: "seg_env \<Rightarrow> nat \<Rightarrow> bridge \<Rightarrow> bridge" where
  "startSway e segmentIndex br =
     (if isMiddleIndex br segmentIndex \<and> \<not> swayActive br
      then br\<lparr>swayActive := True,
              swayStartTime := sNow e,
              swayAmplitude := 2 + rAmplitude e * 2,
              swayVelocity := (rSwayVelocity e - 0.5) * 1.5,
              swayDamping := 0.75\<rparr>
      else br)"

definition releaseSegment :: "seg_env \<Rightarrow> bridge_segment \<Rightarrow> bridge_segment" where
  "releaseSegment e seg =
     (let seg1 = makeDynamic ((rImpulse e - 0.5) * 0.5) (- 0.3) ((rTorque e - 0.5) * 0.1) seg;
          seg2 = (if leftJoint seg1 \<noteq> None then breakJoint LeftSide seg1 else seg1)
      in if rightJoint seg2 \<noteq> None then breakJoint RightSide seg2 else seg2)"

text \<open>
  \<open>onSegmentBroken\<close>: the sway, the release of the segment (\<open>makeDynamic\<close> and the two
  joints), the schedule, and the request of 8 to 16 debris chunks.
\<close>

definition onSegmentBroken :: "seg_env \<Rightarrow> nat \<Rightarrow> bridge \<Rightarrow> bridge \<times> effect list" where
  "onSegmentBroken e segmentIndex br =
     (let br1 = startSway e segmentIndex br;
          br2 = br1\<lparr>segments :=
                  (segments br1)[segmentIndex := releaseSegment e (segments br1 ! segmentIndex)]\<rparr>;
          br3 = scheduleProgressiveDestruction e segmentIndex br2;
          debrisCount = 8 + nat \<lfloor>rDebrisCount e * 8\<rfloor>
      in (br3, [SpawnBridgeDebris debrisCount]))"

text \<open>\<open>BridgeSegment.takeDamage\<close> on the segment at position \<open>i\<close> of the bridge.\<close>

definition BridgeSegment_takeDamage ::
  "seg_env \<Rightarrow> nat \<Rightarrow> real \<Rightarrow> bridge \<Rightarrow> bridge \<times> effect list" where
  "BridgeSegment_takeDamage e i damage br =
     (let seg = segments br ! i
      in if seg_state seg = Broken \<or> seg_state seg = Dynamic then (br, [])
         else
           let seg1 = seg\<lparr>seg_health := seg_health seg - damage\<rparr>
           in if seg_health seg1 \<le> 0
              then onSegmentBroken e i
                     (br\<lparr>segments := (segments br)[i := seg1\<lparr>seg_health := 0, seg_state := Broken\<rparr>]\<rparr>)
              else if seg_health seg1 < seg_maxHealth seg1 * 0.5
              then (br\<lparr>segments := (segments br)[i := seg1\<lparr>seg_state := Damaged\<rparr>]\<rparr>, [])
              else (br\<lparr>segments := (segments br)[i := seg1]\<rparr>, []))"

text \<open>\<open>Bridge.takeDamage\<close>: the loop over the segments, then the two towers.\<close>

fun damageSegments ::
  "(nat \<Rightarrow> seg_env) \<Rightarrow> real \<Rightarrow> real \<Rightarrow> real \<Rightarrow> real \<Rightarrow> nat list \<Rightarrow>
     bridge \<times> effect list \<Rightarrow> bridge \<times> effect list" where
  "damageSegments e_of intensity damageX damageY damageRadius [] acc = acc"
| "damageSegments e_of intensity damageX damageY damageRadius (i # rest) (br, fx) =
     (let segment = segments br ! i
      in if seg_state segment = Broken
         then damageSegments e_of intensity damageX damageY damageRadius rest (br, fx)
         else
           let segCenterX = seg_x segment + seg_w segment / 2;
               segCenterY = seg_y segment + seg_h segment / 2;
               distance = sqrt ((segCenterX - damageX) ^ 2 + (segCenterY - damageY) ^ 2)
           in if distance < damageRadius
              then
                let normalizedDist = distance / damageRadius;
                    falloffN = (1 - normalizedDist) ^ 2
                in case BridgeSegment_takeDamage (e_of i) i (intensity * falloffN) br of
                     (br1, fx1) \<Rightarrow>
                       damageSegments e_of intensity damageX damageY damageRadius rest
                         (br1, fx @ fx1)
              else damageSegments e_of intensity damageX damageY damageRadius rest (br, fx))"

definition damageTowers :: "real \<Rightarrow> real \<Rightarrow> real \<Rightarrow> real \<Rightarrow> bridge \<Rightarrow> bridge" where
  "damageTowers intensity damageX damageY damageRadius br =
     (let leftTowerCenterX = leftTowerX br + towerWidth br / 2;
          rightTowerCenterX = rightTowerX br + towerWidth br / 2;
          towerCenterY = br_y br + br_height br - towerHeight br / 2;
          leftDist = sqrt ((leftTowerCenterX - damageX) ^ 2 + (towerCenterY - damageY) ^ 2);
          rightDist = sqrt ((rightTowerCenterX - damageX) ^ 2 + (towerCenterY - damageY) ^ 2);
          br1 = (if leftDist < damageRadius
                 then br\<lparr>leftTowerHealth :=
                         leftTowerHealth br - intensity * (1 - leftDist / damageRadius) ^ 2 * 0.1\<rparr>
                 else br)
      in if rightDist < damageRadius
         then br1\<lparr>rightTowerHealth :=
                  rightTowerHealth br1 - intensity * (1 - rightDist / damageRadius) ^ 2 * 0.1\<rparr>
         else br1)"

definition Bridge_takeDamage ::
  "(nat \<Rightarrow> seg_env) \<Rightarrow> real \<Rightarrow> real \<Rightarrow> real \<Rightarrow> real \<Rightarrow> bridge \<Rightarrow> bridge \<times> effect list" where
  "Bridge_takeDamage e_of intensity damageX damageY damageRadius br =
     (case damageSegments e_of intensity damageX damageY damageRadius
             [0..<length (segments br)] (br, []) of
        (br1, fx) \<Rightarrow> (damageTowers intensity damageX damageY damageRadius br1, fx))"

text \<open>
  The destruction sequence in \<open>Bridge.update\<close>: \<open>filter\<close> visits the entries the array
  held when it was called and returns a new array of the entries kept, which replaces
  \<open>destructionSequence\<close>; what \<open>onSegmentBroken\<close> pushes onto the old array meanwhile is
  neither visited nor kept. \<open>e_of k\<close> serves the entry at position \<open>k\<close>.
\<close>

fun processItems ::
  "(nat \<Rightarrow> seg_env) \<Rightarrow> real \<Rightarrow> nat \<Rightarrow> (nat \<times> real) list \<Rightarrow> bridge \<Rightarrow>
     (nat \<times> real) list \<Rightarrow> effect list \<Rightarrow> bridge \<times> (nat \<times> real) list \<times> effect list" where
  "processItems e_of currentTime k [] br kept fx = (br, kept, fx)"
| "processItems e_of currentTime k ((si, breakTime) # items) br kept fx =
     (if currentTime \<ge> breakTime \<and> seg_state (segments br ! si) \<noteq> Broken
      then
        let seg = segments br ! si;
            seg1 = seg\<lparr>seg_health := 0, seg_state := Broken\<rparr>;
            seg2 = makeDynamic ((rForcedImpulse (e_of k) - 0.5) * 0.4) (- 0.2)
                     ((rForcedTorque (e_of k) - 0.5) * 0.08) seg1;
            br1 = br\<lparr>segments := (segments br)[si := seg2]\<rparr>
        in case onSegmentBroken (e_of k) si br1 of
             (br2, fx1) \<Rightarrow> processItems e_of currentTime (Suc k) items br2 kept (fx @ fx1)
      else processItems e_of currentTime (Suc k) items br (kept @ [(si, breakTime)]) fx)"

definition processDestructionSequence ::
  "(nat \<Rightarrow> seg_env) \<Rightarrow> real \<Rightarrow> bridge \<Rightarrow> bridge \<times> effect list" where
  "processDestructionSequence e_of currentTime br =
     (case processItems e_of currentTime 0 (destructionSequence br) br [] [] of
        (br1, kept, fx) \<Rightarrow> (br1\<lparr>destructionSequence := kept\<rparr>, fx))"

text \<open>
  The conditions of the scheduling loop by name: the position the iteration \<open>k\<close> aims at,
  and whether a position is inside the deck and its segment neither broken nor dynamic.
\<close>

definition windowTarget :: "nat \<Rightarrow> nat \<Rightarrow> nat \<Rightarrow> int" where
  "windowTarget breakCount triggerIndex k = int triggerIndex + (int k - int (breakCount div 2))"

definition schedulable :: "bridge_segment list \<Rightarrow> int \<Rightarrow> bool" where
  "schedulable segs t \<longleftrightarrow>
     0 \<le> t \<and> t < int (length segs) \<and>
     seg_state (segs ! nat t) \<noteq> Broken \<and> seg_state (segs ! nat t) \<noteq> Dynamic"

definition scheduledEntries :: "seg_env \<Rightarrow> nat \<Rightarrow> bridge_segment list \<Rightarrow> (nat \<times> real) list" where
  "scheduledEntries e triggerIndex segs =
     (let breakDelay = 200 + rBreakDelay e * 400;
          breakCount = 3 + nat \<lfloor>rBreakCount e * 4\<rfloor>
      in map (\<lambda>k. (nat (windowTarget breakCount triggerIndex k),
                    schedNow e k + (breakDelay + real k * 100)))
           (filter (\<lambda>k. schedulable segs (windowTarget breakCount triggerIndex k))
              [0..<breakCount]))"

text \<open>
  A bridge as the constructor builds it, with \<open>n\<close> segments (the constructor draws 8 to
  30) whose drawn maximal health, \<open>80 + r * 40\<close>, is \<open>hp\<close>: the first segment has no left
  joint, the last no right joint. The hangers are not modelled.
\<close>

definition newSegment :: "real \<Rightarrow> real \<Rightarrow> real \<Rightarrow> real \<Rightarrow> nat \<Rightarrow> real \<Rightarrow> bridge_segment" where
  "newSegment x y w h index hp =
     \<lparr>baseX = x, baseY = y, seg_x = x, seg_y = y, seg_w = w, seg_h = h,
      seg_maxHealth = hp, seg_health = hp, seg_state = Intact, isKinematic = True,
      velocityX = 0, velocityY = 0, angularVelocity = 0,
      mass = 1.0 + real (index mod 3) * 0.3,
      leftJoint = None, rightJoint = None\<rparr>"

definition newBridge :: "real \<Rightarrow> real \<Rightarrow> real \<Rightarrow> real \<Rightarrow> nat \<Rightarrow> real \<Rightarrow> bridge" where
  "newBridge x y w h n hp =
     \<lparr>br_y = y, br_height = h,
      segments =
        map (\<lambda>i. (newSegment (x + real i * (w / real n)) y (w / real n) h i hp)
                   \<lparr>leftJoint := (if i > 0 then Some False else None),
                    rightJoint := (if Suc i < n then Some False else None)\<rparr>)
          [0..<n],
      towerWidth = 20, towerHeight = 120,
      leftTowerX = x + w * 0.25 - 20 / 2,
      rightTowerX = x + w * 0.75 - 20 / 2,
      leftTowerHealth = 500, rightTowerHealth = 500,
      swayVelocity = 0, swayDamping = 0.92, swayAmplitude = 0,
      swayActive = False, swayStartTime = 0,
      destructionSequence = []\<rparr>"

definition quietSegEnv :: seg_env where
  "quietSegEnv = \<lparr>sNow = 1000, rAmplitude = 1/2, rSwayVelocity = 1/2, rImpulse = 1/2,
                  rTorque = 1/2, rBreakDelay = 1/2, rBreakCount = 1/2,
                  schedNow = (\<lambda>i. 1000), rDebrisCount = 1/2,
                  rForcedImpulse = 1/2, rForcedTorque = 1/2\<rparr>"

text \<open>The bridge of the scenarios: eight segments of health 100.\<close>

definition scenarioBridge :: bridge where
  "scenarioBridge = newBridge 0 500 800 10 8 100"

section \<open>Sticky bombs\<close>

text \<open>
  A bomb refers to its building by position in \<open>buildings\<close> (\<open>attachedTo\<close>) and by
  reference (\<open>attachedBuildingRef\<close>); the model names the referenced building by its
  position too. The maps of \<open>detonateAllStickyBombs\<close> are JavaScript \<open>Map\<close>s, iterated in
  the order of first insertion: association lists, updated in place.
\<close>

record sticky_bomb =
  sb_x :: real
  sb_y :: real
  attachedTo :: "nat option"
  attachedBuildingRef :: "nat option"
  isArmed :: bool
  active :: bool
  sb_velocityY :: real

record explosion =
  ex_x :: real
  ex_y :: real
  ex_radius :: real

datatype static_structure = IsBridge bridge | IsBillboard

record world =
  buildings :: "building list"
  stickyBombs :: "sticky_bomb list"
  staticStructures :: "static_structure list"
  explosions :: "explosion list"
  screenShakeIntensity :: real
  currentCityId :: nat
  effects :: "effect list"

text \<open>
  The window size and the draws of one detonation: \<open>hitEnv i\<close> and \<open>shakeDraws i\<close> serve
  the building at position \<open>i\<close>, \<open>bridgeEnv k j s\<close> the segment \<open>s\<close> of the structure \<open>j\<close>
  under the bomb \<open>k\<close>.
\<close>

record detonate_env =
  innerWidth :: real
  innerHeight :: real
  hitEnv :: "nat \<Rightarrow> hit_env"
  shakeDraws :: "nat \<Rightarrow> real \<times> real"
  bridgeEnv :: "nat \<Rightarrow> nat \<Rightarrow> nat \<Rightarrow> seg_env"

type_synonym damage_map = "(nat \<times> real) list"

definition mapGet :: "damage_map \<Rightarrow> nat \<Rightarrow> real" where
  "mapGet m k = (case map_of m k of None \<Rightarrow> 0 | Some v \<Rightarrow> v)"

text \<open>
  First pass, one bomb and one building: the capped contribution is added to the entry
  of the building (created with \<open>0\<close> when absent), the shake is the maximum.
\<close>

definition accumulate ::
  "real \<Rightarrow> sticky_bomb \<Rightarrow> nat \<times> building \<Rightarrow> damage_map \<times> damage_map \<Rightarrow>
     damage_map \<times> damage_map" where
  "accumulate damageRadius bomb ib maps =
     (case ib of (index, building) \<Rightarrow>
      case maps of (buildingDamageMap, buildingShakeMap) \<Rightarrow>
        if state building = Collapsed then maps
        else
          let centerX = getCenterX building;
              centerY = getCenterY building;
              distance = sqrt ((centerX - sb_x bomb) ^ 2 + (centerY - sb_y bomb) ^ 2)
          in if distance < damageRadius
             then
               let normalizedDistance = distance / damageRadius;
                   falloffFactor = (1 - normalizedDistance) ^ 3;
                   baseDamage = 60;
                   damage = falloffFactor * baseDamage;
                   maxDamagePerBomb = 50;
                   cappedDamage = min damage maxDamagePerBomb;
                   shakeIntensity = falloffFactor * 8
               in (AList.update index (mapGet buildingDamageMap index + cappedDamage)
                     buildingDamageMap,
                   AList.update index (max (mapGet buildingShakeMap index) shakeIntensity)
                     buildingShakeMap)
             else maps)"

definition firstPass ::
  "real \<Rightarrow> building list \<Rightarrow> sticky_bomb list \<Rightarrow>
     sticky_bomb list \<times> damage_map \<times> damage_map" where
  "firstPass damageRadius bs bombs =
     (map (\<lambda>bomb. if isArmed bomb then bomb\<lparr>active := True\<rparr> else bomb) bombs,
      foldl (\<lambda>maps bomb.
               if \<not> isArmed bomb then maps
               else foldl (\<lambda>m ib. accumulate damageRadius bomb ib m) maps (enumerate 0 bs))
        ([], []) bombs)"

text \<open>Second pass: one explosion for each armed bomb, and every bomb is disarmed.\<close>

definition secondPass ::
  "real \<Rightarrow> sticky_bomb list \<Rightarrow> explosion list \<Rightarrow> sticky_bomb list \<times> explosion list" where
  "secondPass explosionRadius bombs exs =
     (map (\<lambda>bomb. if isArmed bomb then bomb\<lparr>isArmed := False\<rparr> else bomb) bombs,
      exs @ map (\<lambda>bomb. \<lparr>ex_x = sb_x bomb, ex_y = sb_y bomb, ex_radius = explosionRadius\<rparr>)
              (filter isArmed bombs))"

text \<open>
  \<open>startCollapse\<close> detaches the bombs that refer to the collapsing building; the call of
  \<open>takeDamage\<close> on the building at position \<open>i\<close> of the world carries this out and logs
  the effects.
\<close>

definition detachStickyBombs :: "nat \<Rightarrow> sticky_bomb list \<Rightarrow> sticky_bomb list" where
  "detachStickyBombs ref bombs =
     map (\<lambda>bomb. if attachedBuildingRef bomb = Some ref
                  then bomb\<lparr>attachedTo := None, attachedBuildingRef := None, sb_velocityY := 0\<rparr>
                  else bomb) bombs"

definition buildingTakeDamage ::
  "hit_env \<Rightarrow> nat \<Rightarrow> real \<Rightarrow> real \<Rightarrow> real \<Rightarrow> world \<Rightarrow> world" where
  "buildingTakeDamage e i damage distance maxDistance w =
     (case takeDamage e damage distance maxDistance (buildings w ! i) of
        (b1, fx) \<Rightarrow>
          w\<lparr>buildings := (buildings w)[i := b1],
            stickyBombs := (if DetachStickyBombs \<in> set fx
                            then detachStickyBombs i (stickyBombs w) else stickyBombs w),
            effects := effects w @ fx\<rparr>)"

text \<open>
  Third pass, one entry of the damage map: the total is capped at 85 and applied by
  \<open>takeDamage\<close> with its default distance \<open>0\<close> and radius \<open>150\<close>.
\<close>

definition applyAccumulated :: "detonate_env \<Rightarrow> damage_map \<Rightarrow> nat \<times> real \<Rightarrow> world \<Rightarrow> world" where
  "applyAccumulated e buildingShakeMap entry w =
     (case entry of (buildingIndex, totalDamage) \<Rightarrow>
        if buildingIndex < length (buildings w) \<and>
           state (buildings w ! buildingIndex) \<noteq> Collapsed
        then
          let maxTotalDamage = 85;
              finalDamage = min totalDamage maxTotalDamage;
              w1 = buildingTakeDamage (hitEnv e buildingIndex) buildingIndex finalDamage 0 150 w;
              shakeIntensity = mapGet buildingShakeMap buildingIndex
          in w1\<lparr>buildings := (buildings w1)
                  [buildingIndex :=
                     applyShake (fst (shakeDraws e buildingIndex)) (snd (shakeDraws e buildingIndex))
                       (min shakeIntensity 12) (buildings w1 ! buildingIndex)]\<rparr>
        else w)"

definition thirdPass :: "detonate_env \<Rightarrow> damage_map \<Rightarrow> damage_map \<Rightarrow> world \<Rightarrow> world" where
  "thirdPass e buildingDamageMap buildingShakeMap w =
     foldl (\<lambda>w entry. applyAccumulated e buildingShakeMap entry w) w buildingDamageMap"

text \<open>Fourth pass: in city 2 every bomb that is still armed damages every bridge.\<close>

definition bombDamagesBridges :: "detonate_env \<Rightarrow> real \<Rightarrow> nat \<times> sticky_bomb \<Rightarrow> world \<Rightarrow> world" where
  "bombDamagesBridges e damageRadius kb w =
     (case kb of (k, bomb) \<Rightarrow>
        if \<not> isArmed bomb then w
        else
          let rs = map (\<lambda>(j, structure).
                          case structure of
                            IsBridge br \<Rightarrow>
                              (case Bridge_takeDamage (bridgeEnv e k j) 60 (sb_x bomb) (sb_y bomb)
                                      damageRadius br of
                                 (br1, fx) \<Rightarrow> (IsBridge br1, fx))
                          | IsBillboard \<Rightarrow> (IsBillboard, []))
                     (enumerate 0 (staticStructures w))
          in w\<lparr>staticStructures := map fst rs, effects := effects w @ concat (map snd rs)\<rparr>)"

definition fourthPass :: "detonate_env \<Rightarrow> real \<Rightarrow> world \<Rightarrow> world" where
  "fourthPass e damageRadius w =
     (if currentCityId w = 2
      then foldl (\<lambda>w kb. bombDamagesBridges e damageRadius kb w) w (enumerate 0 (stickyBombs w))
      else w)"

text \<open>The radius of the detonation: a quarter of the smaller side of the window.\<close>

definition detonationRadius :: "detonate_env \<Rightarrow> real" where
  "detonationRadius e = min (innerWidth e) (innerHeight e) * 0.25"

definition detonateAllStickyBombs :: "detonate_env \<Rightarrow> world \<Rightarrow> world" where
  "detonateAllStickyBombs e w =
     (let explosionRadius = detonationRadius e;
          damageRadius = explosionRadius
      in case firstPass damageRadius (buildings w) (stickyBombs w) of
           (bombs1, buildingDamageMap, buildingShakeMap) \<Rightarrow>
             (case secondPass explosionRadius bombs1 (explosions w) of
                (bombs2, exs) \<Rightarrow>
                  let w2 = w\<lparr>stickyBombs := bombs2, explosions := exs\<rparr>;
                      w3 = thirdPass e buildingDamageMap buildingShakeMap w2;
                      w4 = fourthPass e damageRadius w3;
                      bombCount = length (filter isArmed (stickyBombs w4));
                      shakePerBomb = 6;
                      maxTotalShake = 30;
                      w5 = w4\<lparr>screenShakeIntensity :=
                              min (screenShakeIntensity w4 + real bombCount * shakePerBomb)
                                maxTotalShake\<rparr>
                  in w5\<lparr>stickyBombs := []\<rparr>))"

text \<open>
  The scenario of the sticky-bomb cap: five armed bombs at the centre of one building of
  health 300 and resistance 1.25, in a window of 800 by 600 (radius 150), city 2 with
  the scenario bridge.
\<close>

definition stickyBuilding :: building where
  "stickyBuilding = (Building_new 0 0 100 200 0 0 0 0)\<lparr>materialResistance := 1.25\<rparr>"

definition centreBomb :: sticky_bomb where
  "centreBomb = \<lparr>sb_x = 50, sb_y = 100, attachedTo = Some 0, attachedBuildingRef = Some 0,
                 isArmed = True, active = True, sb_velocityY = 0\<rparr>"

definition stickyWorld :: world where
  "stickyWorld = \<lparr>buildings = [stickyBuilding],
                  stickyBombs = [centreBomb, centreBomb, centreBomb, centreBomb, centreBomb],
                  staticStructures = [IsBridge scenarioBridge],
                  explosions = [],
                  screenShakeIntensity = 0,
                  currentCityId = 2,
                  effects = []\<rparr>"

definition stickyEnv :: detonate_env where
  "stickyEnv = \<lparr>innerWidth = 800, innerHeight = 600,
                hitEnv = (\<lambda>i. quietEnv),
                shakeDraws = (\<lambda>i. (1/2, 1/2)),
                bridgeEnv = (\<lambda>k j s. quietSegEnv)\<rparr>"

section \<open>Debris pools\<close>

text \<open>
  A fragment of the \<open>particles\<close> pool, by the flags of its life cycle. The cap blocks of
  \<open>gameLoop\<close> come in two kinds: the \<open>particles\<close> pool (as \<open>voxelBits\<close> and
  \<open>bridgeDebris\<close>) marks sleeping fragments, the \<open>buildingDebris\<close>, \<open>microDebris\<close> and
  \<open>dustParticles\<close> pools are cut by \<open>splice\<close>.
\<close>

record fragment =
  onGround :: bool
  sleeping :: bool
  settledTime :: "real option"
  doNotDraw :: bool

definition MAX_PARTICLES :: nat where "MAX_PARTICLES = 1500"
definition MAX_BUILDING_DEBRIS :: nat where "MAX_BUILDING_DEBRIS = 400"
definition MAX_MICRO_DEBRIS :: nat where "MAX_MICRO_DEBRIS = 200"
definition MAX_DUST_PARTICLES :: nat where "MAX_DUST_PARTICLES = 150"

text \<open>
  \<open>sleepingParticles\<close> holds references into \<open>particles\<close>: the model keeps the positions
  of the filtered fragments. The comparator \<open>a.settledTime - b.settledTime\<close> orders by
  the settled time (a \<open>null\<close> would count as \<open>0\<close>); \<open>sort\<close> is stable, as
  \<^const>\<open>sort_key\<close> is.
\<close>

definition sleepingIndices :: "fragment list \<Rightarrow> nat list" where
  "sleepingIndices ps =
     filter (\<lambda>i. sleeping (ps ! i) \<and> settledTime (ps ! i) \<noteq> None) [0..<length ps]"

definition settledKey :: "fragment list \<Rightarrow> nat \<Rightarrow> real" where
  "settledKey ps i = (case settledTime (ps ! i) of None \<Rightarrow> 0 | Some t \<Rightarrow> t)"

definition markDoNotDraw :: "nat list \<Rightarrow> fragment list \<Rightarrow> fragment list" where
  "markDoNotDraw marked ps = foldl (\<lambda>ps i. ps[i := (ps ! i)\<lparr>doNotDraw := True\<rparr>]) ps marked"

text \<open>The positions the loop of the cap block marks, oldest settled time first.\<close>

definition evicted :: "nat \<Rightarrow> fragment list \<Rightarrow> nat list" where
  "evicted cap ps =
     (let sleepingParticles = sort_key (settledKey ps) (sleepingIndices ps);
          excessCount = length ps - cap
      in take (min excessCount (length sleepingParticles)) sleepingParticles)"

definition capBySleeping :: "nat \<Rightarrow> fragment list \<Rightarrow> fragment list" where
  "capBySleeping cap ps =
     (if length ps > cap then markDoNotDraw (evicted cap ps) ps else ps)"

text \<open>\<open>pool.splice(0, pool.length - cap)\<close> removes the fragments at the front.\<close>

definition capBySplice :: "nat \<Rightarrow> 'a list \<Rightarrow> 'a list" where
  "capBySplice cap pool =
     (if length pool > cap then drop (length pool - cap) pool else pool)"

definition liveCount :: "fragment list \<Rightarrow> nat" where
  "liveCount ps = length (filter (\<lambda>p. \<not> doNotDraw p) ps)"

text \<open>A fragment in flight, and one asleep since the time \<open>t\<close>.\<close>

definition flying :: fragment where
  "flying = \<lparr>onGround = False, sleeping = False, settledTime = None, doNotDraw = False\<rparr>"

definition asleep :: "real \<Rightarrow> fragment" where
  "asleep t = \<lparr>onGround = True, sleeping = True, settledTime = Some t, doNotDraw = False\<rparr>"

section \<open>Falloff bounds\<close>

lemma falloff_arg_range:
  fixes distance maxDistance :: real
  assumes "0 < maxDistance" "0 \<le> distance"
  shows "0 \<le> 1 - min 1 (distance / maxDistance)" "1 - min 1 (distance / maxDistance) \<le> 1"
proof -
  have "0 \<le> distance / maxDistance"
    using assms by simp
  then show "0 \<le> 1 - min 1 (distance / maxDistance)" "1 - min 1 (distance / maxDistance) \<le> 1"
    by (simp_all add: min_def)
qed

lemma falloff_range:
  assumes "0 < maxDistance" "0 \<le> distance"
  shows "0 \<le> falloff p distance maxDistance" "falloff p distance maxDistance \<le> 1"
  unfolding falloff_def
  using falloff_arg_range [OF assms] by (simp_all add: power_le_one)

lemma falloff_antimono:
  assumes "0 < maxDistance" "0 \<le> d1" "d1 \<le> d2"
  shows "falloff p d2 maxDistance \<le> falloff p d1 maxDistance"
proof -
  have "d1 / maxDistance \<le> d2 / maxDistance"
    using assms by (simp add: divide_right_mono)
  then have le: "1 - min 1 (d2 / maxDistance) \<le> 1 - min 1 (d1 / maxDistance)"
    by (simp add: min_def)
  have "0 \<le> 1 - min 1 (d2 / maxDistance)"
    using assms by (intro falloff_arg_range) auto
  with le show ?thesis
    unfolding falloff_def by (rule power_mono)
qed

lemma damageFactor_eq_falloff:
  assumes "0 < maxDistance" "0 \<le> distance"
  shows "damageFactor distance maxDistance = falloff 3 distance maxDistance"
  using assms by (auto simp: damageFactor_def falloff_def)

text \<open>
  C1. For every \<open>maxDistance > 0\<close> and every distance in \<open>[0, maxDistance]\<close> the falloff
  multiplier \<open>(1 - min(1, distance/maxDistance))^p\<close>, with \<open>p = 3\<close> (explosive weapons,
  the factor \<open>Building.takeDamage\<close> applies) or \<open>p = 2\<close> (continuous effects), lies in
  \<open>[0, 1]\<close>, is \<open>1\<close> at distance \<open>0\<close>, is \<open>0\<close> at \<open>maxDistance\<close>, and does not increase
  with the distance. The factor actually applied by \<open>Building.takeDamage\<close>, guard
  included, is this multiplier with \<open>p = 3\<close>.
\<close>

theorem C1_falloff_bounds:
  assumes "0 < maxDistance" "p = 2 \<or> p = 3"
  shows "(\<forall>d. 0 \<le> d \<and> d \<le> maxDistance \<longrightarrow>
            0 \<le> falloff p d maxDistance \<and> falloff p d maxDistance \<le> 1 \<and>
            damageFactor d maxDistance = falloff 3 d maxDistance) \<and>
         falloff p 0 maxDistance = 1 \<and>
         falloff p maxDistance maxDistance = 0 \<and>
         (\<forall>d1 d2. 0 \<le> d1 \<and> d1 \<le> d2 \<and> d2 \<le> maxDistance \<longrightarrow>
            falloff p d2 maxDistance \<le> falloff p d1 maxDistance)"
proof (intro conjI allI impI)
  fix d assume d: "0 \<le> d \<and> d \<le> maxDistance"
  show "0 \<le> falloff p d maxDistance" "falloff p d maxDistance \<le> 1"
    using falloff_range [of maxDistance d p] assms(1) d by simp_all
  show "damageFactor d maxDistance = falloff 3 d maxDistance"
    using damageFactor_eq_falloff assms(1) d by simp
next
  show "falloff p 0 maxDistance = 1"
    by (simp add: falloff_def)
  show "falloff p maxDistance maxDistance = 0"
    using assms by (auto simp: falloff_def)
next
  fix d1 d2 assume "0 \<le> d1 \<and> d1 \<le> d2 \<and> d2 \<le> maxDistance"
  then show "falloff p d2 maxDistance \<le> falloff p d1 maxDistance"
    using falloff_antimono [of maxDistance d1 d2 p] assms(1) by simp
qed

theorem C1_falloff_bounds_witness:
  "(0::real) < 200 \<and> ((3::nat) = 2 \<or> (3::nat) = 3) \<and>
   falloff 3 0 200 = 1 \<and> falloff 3 200 200 = 0 \<and>
   falloff 3 100 200 = 1 / 8 \<and> falloff 3 100 200 \<le> falloff 3 50 200 \<and>
   damageFactor 100 200 = 1 / 8"
proof -
  have h: "(0::real) < 200" "(3::nat) = 2 \<or> (3::nat) = 3" by simp_all
  note t = C1_falloff_bounds [OF h]
  have "falloff 3 100 200 \<le> falloff 3 50 200"
    using t by simp
  moreover have "falloff 3 100 200 = 1 / 8"
    by (simp add: falloff_def power3_eq_cube)
  moreover have "damageFactor 100 200 = falloff 3 100 200"
    using t by simp
  ultimately show ?thesis using t by simp
qed

section \<open>The blocks of \<open>takeDamage\<close>\<close>

lemma stageOf_antimono: "p \<le> q \<Longrightarrow> stageOf q \<le> stageOf p"
  by (auto simp: stageOf_def)

lemma stageOf_le3: "stageOf p \<le> 3"
  by (simp add: stageOf_def)

lemma stageOf_nonpos: "p \<le> 0 \<Longrightarrow> stageOf p = 3"
  by (simp add: stageOf_def)

lemma damageFactor_nonneg: "0 \<le> damageFactor distance maxDistance"
  using falloff_range(1) [of maxDistance distance 3] by (simp add: damageFactor_def)

lemma damageFactor_le_one: "damageFactor distance maxDistance \<le> 1"
  using falloff_range(2) [of maxDistance distance 3] by (simp add: damageFactor_def)

lemma applyFinalDamage_eq:
  "applyFinalDamage damage distance maxDistance b =
     b\<lparr>health := newHealth damage distance maxDistance b\<rparr>"
  by (simp add: applyFinalDamage_def newHealth_def damageFactor_def Let_def)

lemma updateDamageStage_eq:
  "updateDamageStage b =
     b\<lparr>previousDamageStage := damageStage b, damageStage := stageOf (health b / maxHealth b)\<rparr>"
  by (simp add: updateDamageStage_def Let_def)

lemma stageCrossing_fields:
  "health (fst (stageCrossing b)) = health b"
  "maxHealth (fst (stageCrossing b)) = maxHealth b"
  "materialResistance (fst (stageCrossing b)) = materialResistance b"
  "state (fst (stageCrossing b)) = state b"
  "destroyed (fst (stageCrossing b)) = destroyed b"
  "damageStage (fst (stageCrossing b)) = damageStage b"
  "previousDamageStage (fst (stageCrossing b)) = previousDamageStage b"
  by (simp_all add: stageCrossing_def)

lemma stageCrossing_effects:
  "bursts (snd (stageCrossing b)) = (if previousDamageStage b < damageStage b then 1 else 0)"
  "dustClouds (snd (stageCrossing b)) =
     (if previousDamageStage b < damageStage b \<and> 2 \<le> damageStage b then 1 else 0)"
  by (auto simp: stageCrossing_def bursts_def dustClouds_def)

lemma impactScarAtHit_fields:
  "health (impactScarAtHit e distance maxDistance b) = health b"
  "maxHealth (impactScarAtHit e distance maxDistance b) = maxHealth b"
  "materialResistance (impactScarAtHit e distance maxDistance b) = materialResistance b"
  "state (impactScarAtHit e distance maxDistance b) = state b"
  "destroyed (impactScarAtHit e distance maxDistance b) = destroyed b"
  "damageStage (impactScarAtHit e distance maxDistance b) = damageStage b"
  "previousDamageStage (impactScarAtHit e distance maxDistance b) = previousDamageStage b"
  by (simp_all add: impactScarAtHit_def addImpactScar_def Let_def)

lemma wobbleAndDust_fields:
  "health (fst (wobbleAndDust e distance b)) = health b"
  "maxHealth (fst (wobbleAndDust e distance b)) = maxHealth b"
  "materialResistance (fst (wobbleAndDust e distance b)) = materialResistance b"
  "state (fst (wobbleAndDust e distance b)) = state b"
  "destroyed (fst (wobbleAndDust e distance b)) = destroyed b"
  "damageStage (fst (wobbleAndDust e distance b)) = damageStage b"
  "previousDamageStage (fst (wobbleAndDust e distance b)) = previousDamageStage b"
  by (simp_all add: wobbleAndDust_def applyShake_def Let_def)

lemma wobbleAndDust_effects:
  "bursts (snd (wobbleAndDust e distance b)) = 0"
  "dustClouds (snd (wobbleAndDust e distance b)) = 0"
  by (simp_all add: wobbleAndDust_def bursts_def dustClouds_def Let_def)

lemma collapseCheck_fields:
  "health (fst (collapseCheck e b)) = (if health b \<le> 0 then 0 else health b)"
  "maxHealth (fst (collapseCheck e b)) = maxHealth b"
  "materialResistance (fst (collapseCheck e b)) = materialResistance b"
  "state (fst (collapseCheck e b)) =
     (if health b \<le> 0 \<and> state b = Alive then Collapsing else state b)"
  "destroyed (fst (collapseCheck e b)) = destroyed b"
  "damageStage (fst (collapseCheck e b)) = damageStage b"
  "previousDamageStage (fst (collapseCheck e b)) = previousDamageStage b"
  by (simp_all add: collapseCheck_def startCollapse_def Let_def)

lemma collapseCheck_effects:
  "bursts (snd (collapseCheck e b)) = 0"
  "dustClouds (snd (collapseCheck e b)) = 0"
  by (simp_all add: collapseCheck_def startCollapse_def bursts_def dustClouds_def Let_def)

lemma bursts_append: "bursts (xs @ ys) = bursts xs + bursts ys"
  by (simp add: bursts_def)

lemma dustClouds_append: "dustClouds (xs @ ys) = dustClouds xs + dustClouds ys"
  by (simp add: dustClouds_def)

lemma takeDamage_destroyed:
  "destroyed b \<Longrightarrow> takeDamage e damage distance maxDistance b = (b, [])"
  by (simp add: takeDamage_def)

lemma takeDamage_fst:
  "\<not> destroyed b \<Longrightarrow>
   fst (takeDamage e damage distance maxDistance b) =
     fst (collapseCheck e (fst (wobbleAndDust e distance
       (impactScarAtHit e distance maxDistance
         (fst (stageCrossing (updateDamageStage
           (applyFinalDamage damage distance maxDistance b))))))))"
  by (simp add: takeDamage_def split: prod.splits)

lemma takeDamage_snd:
  "\<not> destroyed b \<Longrightarrow>
   snd (takeDamage e damage distance maxDistance b) =
     snd (stageCrossing (updateDamageStage (applyFinalDamage damage distance maxDistance b))) @
     snd (wobbleAndDust e distance
       (impactScarAtHit e distance maxDistance
         (fst (stageCrossing (updateDamageStage
           (applyFinalDamage damage distance maxDistance b)))))) @
     snd (collapseCheck e (fst (wobbleAndDust e distance
       (impactScarAtHit e distance maxDistance
         (fst (stageCrossing (updateDamageStage
           (applyFinalDamage damage distance maxDistance b))))))))"
  by (simp add: takeDamage_def split: prod.splits)

lemmas block_fields = stageCrossing_fields impactScarAtHit_fields wobbleAndDust_fields
  collapseCheck_fields applyFinalDamage_eq updateDamageStage_eq

lemma takeDamage_health:
  "\<not> destroyed b \<Longrightarrow>
   health (fst (takeDamage e damage distance maxDistance b)) =
     (if newHealth damage distance maxDistance b \<le> 0 then 0
      else newHealth damage distance maxDistance b)"
  by (simp add: takeDamage_fst block_fields)

lemma takeDamage_damageStage:
  "\<not> destroyed b \<Longrightarrow>
   damageStage (fst (takeDamage e damage distance maxDistance b)) =
     stageOf (newHealth damage distance maxDistance b / maxHealth b)"
  by (simp add: takeDamage_fst block_fields)

lemma takeDamage_previousDamageStage:
  "\<not> destroyed b \<Longrightarrow>
   previousDamageStage (fst (takeDamage e damage distance maxDistance b)) = damageStage b"
  by (simp add: takeDamage_fst block_fields)

lemma takeDamage_frame:
  "maxHealth (fst (takeDamage e damage distance maxDistance b)) = maxHealth b"
  "materialResistance (fst (takeDamage e damage distance maxDistance b)) = materialResistance b"
  "destroyed (fst (takeDamage e damage distance maxDistance b)) = destroyed b"
  by (cases "destroyed b"; simp add: takeDamage_fst takeDamage_destroyed block_fields)+

lemma takeDamage_state:
  "\<not> destroyed b \<Longrightarrow>
   state (fst (takeDamage e damage distance maxDistance b)) =
     (if newHealth damage distance maxDistance b \<le> 0 \<and> state b = Alive then Collapsing
      else state b)"
  by (simp add: takeDamage_fst block_fields)

lemma takeDamage_bursts:
  "\<not> destroyed b \<Longrightarrow>
   bursts (snd (takeDamage e damage distance maxDistance b)) =
     (if damageStage b < stageOf (newHealth damage distance maxDistance b / maxHealth b)
      then 1 else 0)"
  by (simp add: takeDamage_snd bursts_append stageCrossing_effects wobbleAndDust_effects
      collapseCheck_effects applyFinalDamage_eq updateDamageStage_eq)

lemma takeDamage_dustClouds:
  "\<not> destroyed b \<Longrightarrow>
   dustClouds (snd (takeDamage e damage distance maxDistance b)) =
     (if damageStage b < stageOf (newHealth damage distance maxDistance b / maxHealth b) \<and>
         2 \<le> stageOf (newHealth damage distance maxDistance b / maxHealth b)
      then 1 else 0)"
  by (simp add: takeDamage_snd dustClouds_append stageCrossing_effects wobbleAndDust_effects
      collapseCheck_effects applyFinalDamage_eq updateDamageStage_eq)

section \<open>Health and damage stage\<close>

lemma newHealth_le:
  assumes "0 \<le> damage" "0 \<le> materialResistance b"
  shows "newHealth damage distance maxDistance b \<le> health b"
proof -
  have "0 \<le> damage * materialResistance b * damageFactor distance maxDistance"
    using assms damageFactor_nonneg [of distance maxDistance] by simp
  then show ?thesis by (simp add: newHealth_def)
qed

lemma Building_new_inv:
  assumes "0 \<le> rHealth" "0 \<le> rResistance"
  shows "building_inv (Building_new x y w h rHealth rResistance rDuration rInterval)"
proof -
  have "0 < 300 + rHealth * 200" "0 \<le> 0.7 + rResistance * 0.6"
    using assms by (simp_all add: add_pos_nonneg add_nonneg_nonneg)
  then show ?thesis
    by (simp add: building_inv_def Building_new_def stageOf_def)
qed

lemma takeDamage_inv:
  assumes inv: "building_inv b" and dmg: "0 \<le> damage"
  shows "building_inv (fst (takeDamage e damage distance maxDistance b))"
proof (cases "destroyed b")
  case True
  then show ?thesis using inv by (simp add: takeDamage_destroyed)
next
  case False
  let ?n = "newHealth damage distance maxDistance b"
  have le: "?n \<le> health b"
    using newHealth_le [OF dmg] inv by (simp add: building_inv_def)
  have mh: "0 < maxHealth b" using inv by (simp add: building_inv_def)
  have st: "?n \<le> 0 \<Longrightarrow> stageOf (?n / maxHealth b) = 3"
    using mh by (simp add: stageOf_nonpos divide_nonpos_pos)
  have z: "state b \<noteq> Alive \<Longrightarrow> ?n \<le> 0"
    using le inv by (simp add: building_inv_def)
  show ?thesis
    unfolding building_inv_def
    using False inv le st z
    by (auto simp: takeDamage_health takeDamage_damageStage takeDamage_frame takeDamage_state
        building_inv_def stageOf_nonpos)
qed

lemma updateCollapse_fst:
  "state b = Collapsing \<Longrightarrow>
   fst (updateCollapse nowT rWobble rShX rShY b) =
     fst (endCollapse (collapseProgress nowT b)
       (collapseShake (collapseProgress nowT b) rShX rShY
         (fst (progressiveDebris nowT (collapseProgress nowT b)
           (intensifyCracks (collapseDeform (collapseProgress nowT b) rWobble b))))))"
  by (simp add: updateCollapse_def Let_def split: prod.splits)

lemma collapse_block_fields:
  "health (collapseDeform p rWobble b) = health b"
  "maxHealth (collapseDeform p rWobble b) = maxHealth b"
  "materialResistance (collapseDeform p rWobble b) = materialResistance b"
  "damageStage (collapseDeform p rWobble b) = damageStage b"
  "state (collapseDeform p rWobble b) = state b"
  "destroyed (collapseDeform p rWobble b) = destroyed b"
  "health (intensifyCracks b) = health b"
  "maxHealth (intensifyCracks b) = maxHealth b"
  "materialResistance (intensifyCracks b) = materialResistance b"
  "damageStage (intensifyCracks b) = (if damageStage b < 3 then 3 else damageStage b)"
  "state (intensifyCracks b) = state b"
  "destroyed (intensifyCracks b) = destroyed b"
  "health (fst (progressiveDebris nowT p b)) = health b"
  "maxHealth (fst (progressiveDebris nowT p b)) = maxHealth b"
  "materialResistance (fst (progressiveDebris nowT p b)) = materialResistance b"
  "damageStage (fst (progressiveDebris nowT p b)) = damageStage b"
  "state (fst (progressiveDebris nowT p b)) = state b"
  "destroyed (fst (progressiveDebris nowT p b)) = destroyed b"
  "health (collapseShake p rShX rShY b) = health b"
  "maxHealth (collapseShake p rShX rShY b) = maxHealth b"
  "materialResistance (collapseShake p rShX rShY b) = materialResistance b"
  "damageStage (collapseShake p rShX rShY b) = damageStage b"
  "state (collapseShake p rShX rShY b) = state b"
  "destroyed (collapseShake p rShX rShY b) = destroyed b"
  "health (fst (endCollapse p b)) = health b"
  "maxHealth (fst (endCollapse p b)) = maxHealth b"
  "materialResistance (fst (endCollapse p b)) = materialResistance b"
  "damageStage (fst (endCollapse p b)) = damageStage b"
  "state (fst (endCollapse p b)) = (if p \<ge> 1 then Collapsed else state b)"
  "destroyed (fst (endCollapse p b)) = (p \<ge> 1 \<or> destroyed b)"
  by (simp_all add: collapseDeform_def intensifyCracks_def progressiveDebris_def
      collapseShake_def endCollapse_def Let_def)

lemma updateCollapse_inv:
  assumes inv: "building_inv b"
  shows "building_inv (fst (updateCollapse nowT rWobble rShX rShY b))"
proof (cases "state b = Collapsing")
  case False
  then show ?thesis using inv by (simp add: updateCollapse_def)
next
  case True
  then have "damageStage b = 3"
    using inv by (simp add: building_inv_def stageOf_def)
  then show ?thesis
    using inv True by (simp add: updateCollapse_fst collapse_block_fields building_inv_def stageOf_nonpos)
qed

lemma takeDamage_health_le:
  assumes "building_inv b" "0 \<le> damage"
  shows "health (fst (takeDamage e damage distance maxDistance b)) \<le> health b"
proof -
  have le: "newHealth damage distance maxDistance b \<le> health b"
    using newHealth_le assms by (simp add: building_inv_def)
  have "0 \<le> health b" using assms(1) by (simp add: building_inv_def)
  with le show ?thesis
    by (cases "destroyed b") (simp_all add: takeDamage_destroyed takeDamage_health)
qed

text \<open>
  C2. The health of a building never increases under \<open>takeDamage\<close>, and on a
  \<open>collapsed\<close> building the call changes no field and emits no effect. The building is
  one the program can hold (\<^const>\<open>building_inv\<close>, established by the constructor and
  kept by \<open>takeDamage\<close> and \<open>updateCollapse\<close>), and the damage is not negative, as at
  every call site: each passes a positive constant times a falloff that it computes
  under the guard \<open>distance < radius\<close>.
\<close>

theorem C2_health_never_increases:
  assumes "building_inv b" "0 \<le> damage"
  shows "health (fst (takeDamage e damage distance maxDistance b)) \<le> health b \<and>
         (state b = Collapsed \<longrightarrow> takeDamage e damage distance maxDistance b = (b, []))"
proof (intro conjI impI)
  show "health (fst (takeDamage e damage distance maxDistance b)) \<le> health b"
    using assms by (rule takeDamage_health_le)
next
  assume "state b = Collapsed"
  then have "destroyed b" using assms(1) by (simp add: building_inv_def)
  then show "takeDamage e damage distance maxDistance b = (b, [])"
    by (rule takeDamage_destroyed)
qed

theorem C2_health_never_increases_witness:
  "building_inv collapsedBuilding \<and> (0::real) \<le> 120 \<and> state collapsedBuilding = Collapsed \<and>
   takeDamage quietEnv 120 0 200 collapsedBuilding = (collapsedBuilding, []) \<and>
   health (fst (takeDamage quietEnv 120 0 200 collapsedBuilding)) \<le> health collapsedBuilding"
proof -
  have inv: "building_inv collapsedBuilding"
    by (simp add: building_inv_def collapsedBuilding_def scenarioBuilding_def Building_new_def
        stageOf_def)
  have st: "state collapsedBuilding = Collapsed"
    by (simp add: collapsedBuilding_def)
  have d: "(0::real) \<le> 120" by simp
  show ?thesis
    using C2_health_never_increases [OF inv d, of quietEnv 0 200] inv st by simp
qed

lemma takeDamage_stage_mono:
  assumes inv: "building_inv b" and dmg: "0 \<le> damage"
  shows "damageStage b \<le> damageStage (fst (takeDamage e damage distance maxDistance b))"
proof (cases "destroyed b")
  case True
  then show ?thesis by (simp add: takeDamage_destroyed)
next
  case False
  have le: "newHealth damage distance maxDistance b \<le> health b"
    using newHealth_le [OF dmg] inv by (simp add: building_inv_def)
  have mh: "0 < maxHealth b" using inv by (simp add: building_inv_def)
  from le mh have "newHealth damage distance maxDistance b / maxHealth b \<le> health b / maxHealth b"
    by (simp add: divide_right_mono)
  then have "stageOf (health b / maxHealth b)
      \<le> stageOf (newHealth damage distance maxDistance b / maxHealth b)"
    by (rule stageOf_antimono)
  then show ?thesis
    using False inv by (simp add: takeDamage_damageStage building_inv_def)
qed

lemma takeDamage_crossing_effects:
  "bursts (snd (takeDamage e damage distance maxDistance b)) =
     (if damageStage b < damageStage (fst (takeDamage e damage distance maxDistance b))
      then 1 else 0)"
  "dustClouds (snd (takeDamage e damage distance maxDistance b)) =
     (if damageStage b < damageStage (fst (takeDamage e damage distance maxDistance b)) \<and>
         2 \<le> damageStage (fst (takeDamage e damage distance maxDistance b))
      then 1 else 0)"
proof -
  show "bursts (snd (takeDamage e damage distance maxDistance b)) =
     (if damageStage b < damageStage (fst (takeDamage e damage distance maxDistance b))
      then 1 else 0)"
  proof (cases "destroyed b")
    case True
    then show ?thesis by (simp add: takeDamage_destroyed bursts_def)
  next
    case False
    then show ?thesis by (simp add: takeDamage_bursts takeDamage_damageStage)
  qed
  show "dustClouds (snd (takeDamage e damage distance maxDistance b)) =
     (if damageStage b < damageStage (fst (takeDamage e damage distance maxDistance b)) \<and>
         2 \<le> damageStage (fst (takeDamage e damage distance maxDistance b))
      then 1 else 0)"
  proof (cases "destroyed b")
    case True
    then show ?thesis by (simp add: takeDamage_destroyed dustClouds_def)
  next
    case False
    then show ?thesis by (simp add: takeDamage_dustClouds takeDamage_damageStage)
  qed
qed

lemma stageOf_bands:
  "stageOf p = 0 \<longleftrightarrow> 0.75 < p"
  "stageOf p = 1 \<longleftrightarrow> 0.5 < p \<and> p \<le> 0.75"
  "stageOf p = 2 \<longleftrightarrow> 0.2 < p \<and> p \<le> 0.5"
  "stageOf p = 3 \<longleftrightarrow> p \<le> 0.2"
  by (auto simp: stageOf_def)

lemma takeDamages_steps:
  assumes "building_inv b" "\<forall>h \<in> set hs. 0 \<le> h_damage h"
  shows "\<forall>(pre, post, fx) \<in> set (takeDamages hs b).
           building_inv post \<and>
           damageStage pre \<le> damageStage post \<and>
           bursts fx = (if damageStage pre < damageStage post then 1 else 0) \<and>
           dustClouds fx =
             (if damageStage pre < damageStage post \<and> 2 \<le> damageStage post then 1 else 0)"
  using assms
proof (induction hs arbitrary: b)
  case Nil
  then show ?case by simp
next
  case (Cons h hs)
  obtain b' fx where td: "takeDamage (h_env h) (h_damage h) (h_distance h) (h_maxDistance h) b = (b', fx)"
    by (cases "takeDamage (h_env h) (h_damage h) (h_distance h) (h_maxDistance h) b")
  have dmg: "0 \<le> h_damage h" using Cons.prems(2) by simp
  have inv': "building_inv b'"
    using takeDamage_inv [OF Cons.prems(1) dmg, of "h_env h" "h_distance h" "h_maxDistance h"] td
    by simp
  have mono: "damageStage b \<le> damageStage b'"
    using takeDamage_stage_mono [OF Cons.prems(1) dmg, of "h_env h" "h_distance h" "h_maxDistance h"]
      td by simp
  have fxs: "bursts fx = (if damageStage b < damageStage b' then 1 else 0)"
    "dustClouds fx = (if damageStage b < damageStage b' \<and> 2 \<le> damageStage b' then 1 else 0)"
    using takeDamage_crossing_effects [of "h_env h" "h_damage h" "h_distance h" "h_maxDistance h" b]
      td by simp_all
  have rest: "\<forall>(pre, post, fx) \<in> set (takeDamages hs b').
           building_inv post \<and>
           damageStage pre \<le> damageStage post \<and>
           bursts fx = (if damageStage pre < damageStage post then 1 else 0) \<and>
           dustClouds fx =
             (if damageStage pre < damageStage post \<and> 2 \<le> damageStage post then 1 else 0)"
    using Cons.IH [OF inv'] Cons.prems(2) by simp
  show ?case
    using td inv' mono fxs rest by simp
qed

lemma takeDamages_sorted:
  assumes "building_inv b" "\<forall>h \<in> set hs. 0 \<le> h_damage h"
  shows "sorted (damageStage b # map (\<lambda>(pre, post, fx). damageStage post) (takeDamages hs b))"
  using assms
proof (induction hs arbitrary: b)
  case Nil
  then show ?case by simp
next
  case (Cons h hs)
  obtain b' fx where td: "takeDamage (h_env h) (h_damage h) (h_distance h) (h_maxDistance h) b = (b', fx)"
    by (cases "takeDamage (h_env h) (h_damage h) (h_distance h) (h_maxDistance h) b")
  have dmg: "0 \<le> h_damage h" using Cons.prems(2) by simp
  have inv': "building_inv b'"
    using takeDamage_inv [OF Cons.prems(1) dmg, of "h_env h" "h_distance h" "h_maxDistance h"] td
    by simp
  have mono: "damageStage b \<le> damageStage b'"
    using takeDamage_stage_mono [OF Cons.prems(1) dmg, of "h_env h" "h_distance h" "h_maxDistance h"]
      td by simp
  have "sorted (damageStage b' # map (\<lambda>(pre, post, fx). damageStage post) (takeDamages hs b'))"
    using Cons.IH [OF inv'] Cons.prems(2) by simp
  with mono show ?case
    using td by auto
qed

text \<open>
  C3. The damage stage is the stage of the health fraction (0 above 75 percent, 1 above 50
  up to 75, 2 above 20 up to 50, 3 at 20 percent or less, also at health 0); along any run of
  \<open>takeDamage\<close> calls it never decreases, and each call in which it rises emits exactly
  one micro-debris burst, with one dust cloud when the new stage is at least 2; a call
  in which it does not rise emits neither.
\<close>

theorem C3_stage_monotone:
  assumes "building_inv b" "\<forall>h \<in> set hs. 0 \<le> h_damage h"
  shows "sorted (damageStage b # map (\<lambda>(pre, post, fx). damageStage post) (takeDamages hs b)) \<and>
         (\<forall>(pre, post, fx) \<in> set (takeDamages hs b).
            damageStage post = stageOf (health post / maxHealth post) \<and>
            damageStage pre \<le> damageStage post \<and>
            bursts fx = (if damageStage pre < damageStage post then 1 else 0) \<and>
            dustClouds fx =
              (if damageStage pre < damageStage post \<and> 2 \<le> damageStage post then 1 else 0)) \<and>
         (\<forall>p. (stageOf p = 0 \<longleftrightarrow> 0.75 < p) \<and>
              (stageOf p = 1 \<longleftrightarrow> 0.5 < p \<and> p \<le> 0.75) \<and>
              (stageOf p = 2 \<longleftrightarrow> 0.2 < p \<and> p \<le> 0.5) \<and>
              (stageOf p = 3 \<longleftrightarrow> p \<le> 0.2))"
proof (intro conjI)
  show "sorted (damageStage b # map (\<lambda>(pre, post, fx). damageStage post) (takeDamages hs b))"
    using assms by (rule takeDamages_sorted)
  show "\<forall>(pre, post, fx) \<in> set (takeDamages hs b).
            damageStage post = stageOf (health post / maxHealth post) \<and>
            damageStage pre \<le> damageStage post \<and>
            bursts fx = (if damageStage pre < damageStage post then 1 else 0) \<and>
            dustClouds fx =
              (if damageStage pre < damageStage post \<and> 2 \<le> damageStage post then 1 else 0)"
    using takeDamages_steps [OF assms] by (auto simp: building_inv_def)
  show "\<forall>p. (stageOf p = 0 \<longleftrightarrow> 0.75 < p) \<and>
              (stageOf p = 1 \<longleftrightarrow> 0.5 < p \<and> p \<le> 0.75) \<and>
              (stageOf p = 2 \<longleftrightarrow> 0.2 < p \<and> p \<le> 0.5) \<and>
              (stageOf p = 3 \<longleftrightarrow> p \<le> 0.2)"
    using stageOf_bands by blast
qed

lemma scenarioBuilding_inv: "building_inv scenarioBuilding"
  by (simp add: scenarioBuilding_def Building_new_inv)

lemma scenarioBuilding_fields:
  "health scenarioBuilding = 400" "maxHealth scenarioBuilding = 400"
  "materialResistance scenarioBuilding = 1" "state scenarioBuilding = Alive"
  "\<not> destroyed scenarioBuilding" "damageStage scenarioBuilding = 0"
  "getCenterX scenarioBuilding = 50" "getCenterY scenarioBuilding = 100"
  by (simp_all add: scenarioBuilding_def Building_new_def getCenterX_def getCenterY_def)

theorem C3_stage_monotone_witness:
  "building_inv scenarioBuilding \<and> 0 \<le> h_damage centreHit \<and>
   (\<exists>post fx. takeDamages [centreHit] scenarioBuilding = [(scenarioBuilding, post, fx)] \<and>
      damageStage scenarioBuilding = 0 \<and> damageStage post = 1 \<and>
      bursts fx = 1 \<and> dustClouds fx = 0)"
proof -
  have h: "\<forall>h \<in> set [centreHit]. 0 \<le> h_damage h"
    by (simp add: centreHit_def)
  obtain post fx where td: "takeDamage quietEnv 120 0 200 scenarioBuilding = (post, fx)"
    by (cases "takeDamage quietEnv 120 0 200 scenarioBuilding")
  then have run: "takeDamages [centreHit] scenarioBuilding = [(scenarioBuilding, post, fx)]"
    by (simp add: centreHit_def)
  have "damageStage post = damageStage (fst (takeDamage quietEnv 120 0 200 scenarioBuilding))"
    using td by simp
  also have "\<dots> = 1"
    by (simp add: takeDamage_damageStage scenarioBuilding_fields newHealth_def damageFactor_def
        stageOf_def)
  finally have st: "damageStage post = 1" .
  show ?thesis
    using C3_stage_monotone [OF scenarioBuilding_inv h] run st scenarioBuilding_inv h
    by (simp add: scenarioBuilding_fields)
qed

section \<open>Nuclear strike\<close>

lemma applyShake_fields:
  "health (applyShake r1 r2 i b) = health b"
  "maxHealth (applyShake r1 r2 i b) = maxHealth b"
  "damageStage (applyShake r1 r2 i b) = damageStage b"
  "previousDamageStage (applyShake r1 r2 i b) = previousDamageStage b"
  "state (applyShake r1 r2 i b) = state b"
  by (simp_all add: applyShake_def)

lemma nukeHit_in_range:
  assumes "state b \<noteq> Collapsed"
    and "sqrt ((getCenterX b - bombX) ^ 2 + (getCenterY b - y) ^ 2) = d" and "d < 200"
  shows "fst (nukeHit e bombX y b) =
           applyShake (n_rShakeX e) (n_rShakeY e) ((1 - d / 200) ^ 3 * 15)
             (fst (takeDamage (n_hit e) (120 * (1 - d / 200) ^ 3) d 200 b))"
    and "bursts (snd (nukeHit e bombX y b)) =
           bursts (snd (takeDamage (n_hit e) (120 * (1 - d / 200) ^ 3) d 200 b))"
  using assms
  by (simp_all add: nukeHit_def Let_def bursts_def split: prod.splits)

text \<open>The call site in \<open>NuclearBomb.explode\<close> passes a damage that is not negative.\<close>

lemma nukeHit_health_le:
  assumes "building_inv b"
  shows "health (fst (nukeHit e bombX y b)) \<le> health b"
proof (cases "state b \<noteq> Collapsed \<and>
    sqrt ((getCenterX b - bombX) ^ 2 + (getCenterY b - y) ^ 2) < 200")
  case False
  then show ?thesis by (auto simp: nukeHit_def Let_def)
next
  case True
  define d where "d = sqrt ((getCenterX b - bombX) ^ 2 + (getCenterY b - y) ^ 2)"
  have d: "sqrt ((getCenterX b - bombX) ^ 2 + (getCenterY b - y) ^ 2) = d" "d < 200"
    using True by (simp_all add: d_def)
  have "0 \<le> 1 - d / 200" using d(2) by simp
  then have "0 \<le> 120 * (1 - d / 200) ^ 3" by simp
  from takeDamage_health_le [OF assms this, of "n_hit e" d 200]
  show ?thesis
    using True by (simp add: nukeHit_in_range(1) [OF _ d] applyShake_fields)
qed

lemma nukeHit_centre:
  assumes "health b = 400" "maxHealth b = 400" "materialResistance b = 1"
    and "state b = Alive" "\<not> destroyed b" "damageStage b = 0"
    and "getCenterX b = bombX" "getCenterY b = y"
  shows "health (fst (nukeHit e bombX y b)) = 280"
    and "previousDamageStage (fst (nukeHit e bombX y b)) = 0"
    and "damageStage (fst (nukeHit e bombX y b)) = 1"
    and "state (fst (nukeHit e bombX y b)) = Alive"
    and "bursts (snd (nukeHit e bombX y b)) = 1"
proof -
  have d: "sqrt ((getCenterX b - bombX) ^ 2 + (getCenterY b - y) ^ 2) = 0"
    using assms by simp
  have st: "state b \<noteq> Collapsed" using assms by simp
  have nh: "newHealth 120 0 200 b = 280"
    using assms by (simp add: newHealth_def damageFactor_def)
  note hit = nukeHit_in_range [OF st d, of e]
  show "health (fst (nukeHit e bombX y b)) = 280"
    and "previousDamageStage (fst (nukeHit e bombX y b)) = 0"
    and "damageStage (fst (nukeHit e bombX y b)) = 1"
    and "state (fst (nukeHit e bombX y b)) = Alive"
    and "bursts (snd (nukeHit e bombX y b)) = 1"
    using assms nh
    by (simp_all add: hit applyShake_fields takeDamage_health takeDamage_damageStage
        takeDamage_previousDamageStage takeDamage_state takeDamage_bursts stageOf_def)
qed

lemma explode_single:
  "\<not> nb_exploded bomb \<Longrightarrow>
   NuclearBomb_explode e_of y bomb [b] =
     (bomb\<lparr>nb_exploded := True\<rparr>,
      [fst (nukeHit (e_of 0) (nb_x bomb) y b)],
      snd (nukeHit (e_of 0) (nb_x bomb) y b))"
  by (simp add: NuclearBomb_explode_def enumerate_eq_zip)

text \<open>
  C5. A nuclear bomb that explodes at distance 0 from the centre of a single building
  with health 400, maximal health 400 and resistance 1 leaves the health at 280 and moves
  the damage stage from 0 to 1, with one micro-debris burst.
\<close>

theorem C5_nuclear_strike:
  assumes "health b = 400" "maxHealth b = 400" "materialResistance b = 1"
    and "state b = Alive" "\<not> destroyed b" "damageStage b = 0"
    and "\<not> nb_exploded bomb" "nb_x bomb = getCenterX b" "y = getCenterY b"
  shows "\<exists>b' fx.
           NuclearBomb_explode e_of y bomb [b] = (bomb\<lparr>nb_exploded := True\<rparr>, [b'], fx) \<and>
           health b' = 280 \<and> previousDamageStage b' = 0 \<and> damageStage b' = 1 \<and>
           state b' = Alive \<and> bursts fx = 1"
proof -
  have c: "getCenterX b = nb_x bomb" "getCenterY b = y"
    using assms by simp_all
  note n = nukeHit_centre [OF assms(1-6) c, of "e_of 0"]
  show ?thesis
    using explode_single [OF assms(7), of e_of y b] n by simp
qed

theorem C5_nuclear_strike_witness:
  "health scenarioBuilding = 400 \<and> maxHealth scenarioBuilding = 400 \<and>
   materialResistance scenarioBuilding = 1 \<and> state scenarioBuilding = Alive \<and>
   \<not> destroyed scenarioBuilding \<and> damageStage scenarioBuilding = 0 \<and>
   getCenterX scenarioBuilding = 50 \<and> getCenterY scenarioBuilding = 100 \<and>
   (\<exists>b' fx.
      NuclearBomb_explode (\<lambda>i. quietNukeEnv) 100
          \<lparr>nb_x = 50, nb_y = 92, nb_exploded = False\<rparr> [scenarioBuilding] =
        (\<lparr>nb_x = 50, nb_y = 92, nb_exploded = True\<rparr>, [b'], fx) \<and>
      health b' = 280 \<and> damageStage b' = 1)"
proof -
  have "\<exists>b' fx.
      NuclearBomb_explode (\<lambda>i. quietNukeEnv) 100
          \<lparr>nb_x = 50, nb_y = 92, nb_exploded = False\<rparr> [scenarioBuilding] =
        (\<lparr>nb_x = 50, nb_y = 92, nb_exploded = False\<rparr>\<lparr>nb_exploded := True\<rparr>, [b'], fx) \<and>
      health b' = 280 \<and> previousDamageStage b' = 0 \<and> damageStage b' = 1 \<and>
      state b' = Alive \<and> bursts fx = 1"
    by (rule C5_nuclear_strike) (simp_all add: scenarioBuilding_fields)
  then have "\<exists>b' fx.
      NuclearBomb_explode (\<lambda>i. quietNukeEnv) 100
          \<lparr>nb_x = 50, nb_y = 92, nb_exploded = False\<rparr> [scenarioBuilding] =
        (\<lparr>nb_x = 50, nb_y = 92, nb_exploded = True\<rparr>, [b'], fx) \<and>
      health b' = 280 \<and> damageStage b' = 1"
    by auto
  then show ?thesis
    by (simp add: scenarioBuilding_fields)
qed

lemma nukeHit_health:
  assumes "building_inv b" "state b = Alive"
    and "sqrt ((getCenterX b - bombX) ^ 2 + (getCenterY b - y) ^ 2) = d" "0 < d" "d < 200"
    and "120 * (1 - d / 200) ^ 6 * materialResistance b < health b"
  shows "health (fst (nukeHit e bombX y b)) =
           health b - 120 * (1 - d / 200) ^ 6 * materialResistance b"
proof -
  have st: "state b \<noteq> Collapsed" "\<not> destroyed b"
    using assms by (simp_all add: building_inv_def)
  have "min 1 (d / 200) = d / 200" using assms by simp
  then have df: "damageFactor d 200 = (1 - d / 200) ^ 3"
    using assms by (simp add: damageFactor_def falloff_def)
  have "(1 - d / 200) ^ 3 * (1 - d / 200) ^ 3 = (1 - d / 200) ^ 6"
    by (simp add: power_add [symmetric])
  then have nh: "newHealth (120 * (1 - d / 200) ^ 3) d 200 b =
      health b - 120 * (1 - d / 200) ^ 6 * materialResistance b"
    by (simp add: newHealth_def df algebra_simps)
  show ?thesis
    using assms(6) st(2)
    by (simp add: nukeHit_in_range(1) [OF st(1) assms(3) assms(5)] applyShake_fields
        takeDamage_health nh)
qed

text \<open>
  C4. A hit at distance \<open>d\<close> inside the radius is meant to reduce the health by
  \<open>baseDamage * falloff(d) * materialResistance\<close>, the falloff applied once.
  \<open>NuclearBomb.explode\<close> multiplies the base damage by the cubic falloff and passes the
  distance on to \<open>takeDamage\<close>, which multiplies by the cubic falloff again
  (\<open>nukeHit_health\<close>: the sixth power). At distance 100 of the radius 200 the scenario
  building loses 1.875 and is left with 398.125, where one falloff gives a loss of 15 and
  a health of 385.
\<close>

theorem C4_nuke_half_radius:
  "health (fst (nukeHit quietNukeEnv 150 100 scenarioBuilding)) = 398.125 \<and>
   health scenarioBuilding - 120 * falloff 3 100 200 * materialResistance scenarioBuilding = 385"
proof -
  have "sqrt ((100::real) ^ 2) = 100" by simp
  then have s: "sqrt (10000::real) = 100" by simp
  have d: "sqrt ((getCenterX scenarioBuilding - 150) ^ 2 + (getCenterY scenarioBuilding - 100) ^ 2) = 100"
    by (simp add: scenarioBuilding_fields s)
  have "health (fst (nukeHit quietNukeEnv 150 100 scenarioBuilding)) =
      health scenarioBuilding - 120 * (1 - 100 / 200) ^ 6 * materialResistance scenarioBuilding"
    by (rule nukeHit_health [OF scenarioBuilding_inv _ d])
       (simp_all add: scenarioBuilding_fields power_divide)
  then show ?thesis
    by (simp add: scenarioBuilding_fields falloff_def power_divide)
qed

section \<open>Segment fracture\<close>

lemma scheduleLoop_frame:
  "segments (scheduleLoop e d c t is br) = segments br"
  "swayActive (scheduleLoop e d c t is br) = swayActive br"
  by (induction "is" arbitrary: br; simp add: Let_def)+

lemma scheduleProgressiveDestruction_frame:
  "segments (scheduleProgressiveDestruction e t br) = segments br"
  "swayActive (scheduleProgressiveDestruction e t br) = swayActive br"
  by (simp_all add: scheduleProgressiveDestruction_def scheduleLoop_frame Let_def)

lemma startSway_frame:
  "segments (startSway e i br) = segments br"
  "destructionSequence (startSway e i br) = destructionSequence br"
  "swayActive (startSway e i br) = (swayActive br \<or> isMiddleIndex br i)"
  by (auto simp: startSway_def)

lemma releaseSegment_fields:
  "seg_health (releaseSegment e seg) = seg_health seg"
  "seg_maxHealth (releaseSegment e seg) = seg_maxHealth seg"
  "isKinematic (releaseSegment e seg) = False"
  "seg_state (releaseSegment e seg) = (if isKinematic seg then Dynamic else seg_state seg)"
  by (simp_all add: releaseSegment_def makeDynamic_def breakJoint_def Let_def)

lemma onSegmentBroken_segments:
  "segments (fst (onSegmentBroken e i br)) =
     (segments br)[i := releaseSegment e (segments br ! i)]"
  by (simp add: onSegmentBroken_def Let_def scheduleProgressiveDestruction_frame startSway_frame)

lemma onSegmentBroken_swayActive:
  "swayActive (fst (onSegmentBroken e i br)) = (swayActive br \<or> isMiddleIndex br i)"
  by (simp add: onSegmentBroken_def Let_def scheduleProgressiveDestruction_frame startSway_frame)

lemma isMiddleIndex_cong:
  "length (segments br') = length (segments br) \<Longrightarrow> isMiddleIndex br' i = isMiddleIndex br i"
  by (simp add: isMiddleIndex_def)

lemma segment_two_hits:
  assumes i: "i < length (segments br)"
    and h: "seg_health (segments br ! i) = 100" "seg_maxHealth (segments br ! i) = 100"
    and st: "seg_state (segments br ! i) = Intact" "isKinematic (segments br ! i)"
  shows "seg_health (segments (fst (BridgeSegment_takeDamage e1 i 60 br)) ! i) = 40"
    and "seg_state (segments (fst (BridgeSegment_takeDamage e1 i 60 br)) ! i) = Damaged"
    and "seg_health (segments (fst (BridgeSegment_takeDamage e2 i 60
            (fst (BridgeSegment_takeDamage e1 i 60 br)))) ! i) = 0"
    and "seg_state (segments (fst (BridgeSegment_takeDamage e2 i 60
            (fst (BridgeSegment_takeDamage e1 i 60 br)))) ! i) = Dynamic"
    and "\<not> isKinematic (segments (fst (BridgeSegment_takeDamage e2 i 60
            (fst (BridgeSegment_takeDamage e1 i 60 br)))) ! i)"
    and "isMiddleIndex br i \<Longrightarrow>
         swayActive (fst (BridgeSegment_takeDamage e2 i 60
            (fst (BridgeSegment_takeDamage e1 i 60 br))))"
proof -
  let ?s1 = "(segments br ! i)\<lparr>seg_health := 40, seg_state := Damaged\<rparr>"
  let ?br1 = "br\<lparr>segments := (segments br)[i := ?s1]\<rparr>"
  have first: "fst (BridgeSegment_takeDamage e1 i 60 br) = ?br1"
    using h st by (simp add: BridgeSegment_takeDamage_def Let_def)
  show "seg_health (segments (fst (BridgeSegment_takeDamage e1 i 60 br)) ! i) = 40"
    and "seg_state (segments (fst (BridgeSegment_takeDamage e1 i 60 br)) ! i) = Damaged"
    using i by (simp_all add: first)
  let ?s2 = "?s1\<lparr>seg_health := 0, seg_state := Broken\<rparr>"
  let ?br2 = "?br1\<lparr>segments := (segments ?br1)[i := ?s2]\<rparr>"
  have second: "BridgeSegment_takeDamage e2 i 60 ?br1 = onSegmentBroken e2 i ?br2"
    using i by (simp add: BridgeSegment_takeDamage_def Let_def)
  have segs: "segments (fst (BridgeSegment_takeDamage e2 i 60 ?br1)) ! i = releaseSegment e2 ?s2"
    using i by (simp add: second onSegmentBroken_segments)
  show "seg_health (segments (fst (BridgeSegment_takeDamage e2 i 60
            (fst (BridgeSegment_takeDamage e1 i 60 br)))) ! i) = 0"
    and "seg_state (segments (fst (BridgeSegment_takeDamage e2 i 60
            (fst (BridgeSegment_takeDamage e1 i 60 br)))) ! i) = Dynamic"
    and "\<not> isKinematic (segments (fst (BridgeSegment_takeDamage e2 i 60
            (fst (BridgeSegment_takeDamage e1 i 60 br)))) ! i)"
    using st by (simp_all add: first segs releaseSegment_fields)
  assume "isMiddleIndex br i"
  then have "isMiddleIndex ?br2 i" by (simp add: isMiddleIndex_def)
  then show "swayActive (fst (BridgeSegment_takeDamage e2 i 60
            (fst (BridgeSegment_takeDamage e1 i 60 br))))"
    by (simp add: first second onSegmentBroken_swayActive)
qed

lemma scenarioBridge_segments:
  "length (segments scenarioBridge) = 8"
  "i < 8 \<Longrightarrow> seg_health (segments scenarioBridge ! i) = 100"
  "i < 8 \<Longrightarrow> seg_maxHealth (segments scenarioBridge ! i) = 100"
  "i < 8 \<Longrightarrow> seg_state (segments scenarioBridge ! i) = Intact"
  "i < 8 \<Longrightarrow> isKinematic (segments scenarioBridge ! i)"
  "destructionSequence scenarioBridge = []"
  by (simp_all add: scenarioBridge_def newBridge_def newSegment_def)

lemma scenarioBridge_middle: "isMiddleIndex scenarioBridge 4" "\<not> isMiddleIndex scenarioBridge 0"
  by (simp_all add: isMiddleIndex_def scenarioBridge_segments)

text \<open>
  After the second hit the segment is not in state \<open>broken\<close>: \<open>takeDamage\<close> sets
  \<open>broken\<close> and calls \<open>onSegmentBroken\<close>, whose \<open>makeDynamic\<close> moves the still kinematic
  segment on to \<open>dynamic\<close> before \<open>takeDamage\<close> returns.
\<close>

theorem C7_segment_state_counterexample:
  "seg_state (segments (fst (BridgeSegment_takeDamage quietSegEnv 4 60
      (fst (BridgeSegment_takeDamage quietSegEnv 4 60 scenarioBridge)))) ! 4) \<noteq> Broken"
  using segment_two_hits(4) [of 4 scenarioBridge quietSegEnv quietSegEnv]
  by (simp add: scenarioBridge_segments)

text \<open>
  C7, amended. A kinematic, intact segment with health and maximal health 100 has health
  40 and state \<open>damaged\<close> after \<open>takeDamage(60)\<close>; after a second \<open>takeDamage(60)\<close> its
  health is 0, its physics is active (\<open>isKinematic\<close> false) and its state is \<open>dynamic\<close>;
  and when its position is within 1 of the middle position, the sway of the bridge is
  active after the second hit.
\<close>

theorem C7_segment_fracture:
  assumes "i < length (segments br)"
    and "seg_health (segments br ! i) = 100" "seg_maxHealth (segments br ! i) = 100"
    and "seg_state (segments br ! i) = Intact" "isKinematic (segments br ! i)"
  shows "seg_health (segments (fst (BridgeSegment_takeDamage e1 i 60 br)) ! i) = 40 \<and>
         seg_state (segments (fst (BridgeSegment_takeDamage e1 i 60 br)) ! i) = Damaged \<and>
         seg_health (segments (fst (BridgeSegment_takeDamage e2 i 60
            (fst (BridgeSegment_takeDamage e1 i 60 br)))) ! i) = 0 \<and>
         seg_state (segments (fst (BridgeSegment_takeDamage e2 i 60
            (fst (BridgeSegment_takeDamage e1 i 60 br)))) ! i) = Dynamic \<and>
         \<not> isKinematic (segments (fst (BridgeSegment_takeDamage e2 i 60
            (fst (BridgeSegment_takeDamage e1 i 60 br)))) ! i) \<and>
         (isMiddleIndex br i \<longrightarrow>
            swayActive (fst (BridgeSegment_takeDamage e2 i 60
              (fst (BridgeSegment_takeDamage e1 i 60 br)))))"
  using segment_two_hits [OF assms] by blast

theorem C7_segment_fracture_witness:
  "4 < length (segments scenarioBridge) \<and>
   seg_health (segments scenarioBridge ! 4) = 100 \<and>
   seg_maxHealth (segments scenarioBridge ! 4) = 100 \<and>
   seg_state (segments scenarioBridge ! 4) = Intact \<and>
   isKinematic (segments scenarioBridge ! 4) \<and>
   isMiddleIndex scenarioBridge 4 \<and>
   seg_state (segments (fst (BridgeSegment_takeDamage quietSegEnv 4 60
      (fst (BridgeSegment_takeDamage quietSegEnv 4 60 scenarioBridge)))) ! 4) = Dynamic \<and>
   swayActive (fst (BridgeSegment_takeDamage quietSegEnv 4 60
      (fst (BridgeSegment_takeDamage quietSegEnv 4 60 scenarioBridge))))"
  using C7_segment_fracture [of 4 scenarioBridge quietSegEnv quietSegEnv]
  by (simp add: scenarioBridge_segments scenarioBridge_middle)

section \<open>Cascade schedule\<close>

lemma scheduleLoop_sequence:
  "destructionSequence (scheduleLoop e d c t ks br) =
     destructionSequence br @
     map (\<lambda>k. (nat (windowTarget c t k), schedNow e k + (d + real k * 100)))
       (filter (\<lambda>k. schedulable (segments br) (windowTarget c t k)) ks)"
proof (induction ks arbitrary: br)
  case Nil
  then show ?case by simp
next
  case (Cons k ks)
  show ?case
  proof (cases "schedulable (segments br) (windowTarget c t k)")
    case True
    then show ?thesis
      by (simp add: Cons.IH Let_def schedulable_def windowTarget_def)
  next
    case False
    then show ?thesis
      by (auto simp: Cons.IH Let_def schedulable_def windowTarget_def)
  qed
qed

lemma scheduleProgressiveDestruction_sequence:
  "destructionSequence (scheduleProgressiveDestruction e t br) =
     (if isMiddleIndex br t
      then destructionSequence br @ scheduledEntries e t (segments br)
      else destructionSequence br)"
  by (simp add: scheduleProgressiveDestruction_def scheduledEntries_def scheduleLoop_sequence
      Let_def)

lemma onSegmentBroken_sequence:
  "destructionSequence (fst (onSegmentBroken e i br)) =
     (if isMiddleIndex br i
      then destructionSequence br @
           scheduledEntries e i ((segments br)[i := releaseSegment e (segments br ! i)])
      else destructionSequence br)"
  by (simp add: onSegmentBroken_def Let_def scheduleProgressiveDestruction_sequence
      startSway_frame isMiddleIndex_def)

lemma lethal_hit:
  assumes "seg_state (segments br ! i) \<noteq> Broken" "seg_state (segments br ! i) \<noteq> Dynamic"
    and "seg_health (segments br ! i) \<le> damage"
  shows "BridgeSegment_takeDamage e i damage br =
           onSegmentBroken e i
             (br\<lparr>segments := (segments br)
                [i := (segments br ! i)\<lparr>seg_health := 0, seg_state := Broken\<rparr>]\<rparr>)"
  using assms by (simp add: BridgeSegment_takeDamage_def Let_def)

lemma lethal_hit_segments:
  assumes "i < length (segments br)"
    and "seg_state (segments br ! i) \<noteq> Broken" "seg_state (segments br ! i) \<noteq> Dynamic"
    and "seg_health (segments br ! i) \<le> damage"
  shows "segments (fst (BridgeSegment_takeDamage e i damage br)) =
           (segments br)[i := releaseSegment e
              ((segments br ! i)\<lparr>seg_health := 0, seg_state := Broken\<rparr>)]"
  using assms by (simp add: lethal_hit onSegmentBroken_segments)

lemma lethal_hit_sequence:
  assumes "i < length (segments br)"
    and "seg_state (segments br ! i) \<noteq> Broken" "seg_state (segments br ! i) \<noteq> Dynamic"
    and "seg_health (segments br ! i) \<le> damage"
  shows "destructionSequence (fst (BridgeSegment_takeDamage e i damage br)) =
     (if isMiddleIndex br i
      then destructionSequence br @
           scheduledEntries e i (segments (fst (BridgeSegment_takeDamage e i damage br)))
      else destructionSequence br)"
  using assms
  by (simp add: lethal_hit_segments) (simp add: lethal_hit onSegmentBroken_sequence isMiddleIndex_def)

lemma breakCount_range:
  fixes r :: real
  assumes "0 \<le> r" "r < 1"
  shows "3 + nat \<lfloor>r * 4\<rfloor> \<le> 6"
proof -
  have "\<lfloor>r * 4\<rfloor> < 4" using assms by (simp add: floor_less_iff)
  then show ?thesis by linarith
qed

lemma scheduledEntries_sorted:
  assumes mono: "\<And>j k. j \<le> k \<Longrightarrow> schedNow e j \<le> schedNow e k"
  shows "sorted_wrt (<) (map snd (scheduledEntries e t segs))"
proof -
  let ?c = "3 + nat \<lfloor>rBreakCount e * 4\<rfloor>"
  let ?d = "200 + rBreakDelay e * 400"
  have lt: "\<And>j k. j < k \<Longrightarrow> schedNow e j + (?d + real j * 100) < schedNow e k + (?d + real k * 100)"
  proof -
    fix j k :: nat assume jk: "j < k"
    then have "schedNow e j \<le> schedNow e k" by (intro mono) simp
    moreover have "real j * 100 < real k * 100" using jk by simp
    ultimately show "schedNow e j + (?d + real j * 100) < schedNow e k + (?d + real k * 100)"
      by linarith
  qed
  have "sorted_wrt (<) (filter (\<lambda>k. schedulable segs (windowTarget ?c t k)) [0..<?c])"
    by (rule sorted_wrt_filter) simp
  then have "sorted_wrt (\<lambda>j k. schedNow e j + (?d + real j * 100) < schedNow e k + (?d + real k * 100))
      (filter (\<lambda>k. schedulable segs (windowTarget ?c t k)) [0..<?c])"
    by (rule sorted_wrt_mono_rel [rotated]) (use lt in blast)
  then show ?thesis
    by (simp add: scheduledEntries_def Let_def sorted_wrt_map comp_def)
qed

lemma scheduledEntries_members:
  assumes e: "(tg, bt) \<in> set (scheduledEntries e t segs)"
    and mono: "\<And>j k. j \<le> k \<Longrightarrow> schedNow e j \<le> schedNow e k"
    and r: "0 \<le> rBreakDelay e" "0 \<le> rBreakCount e" "rBreakCount e < 1"
  shows "tg < length segs" "seg_state (segs ! tg) \<noteq> Broken" "seg_state (segs ! tg) \<noteq> Dynamic"
    "\<bar>int tg - int t\<bar> \<le> 3" "schedNow e 0 + 200 \<le> bt"
proof -
  let ?c = "3 + nat \<lfloor>rBreakCount e * 4\<rfloor>"
  let ?d = "200 + rBreakDelay e * 400"
  from e obtain k where k: "k < ?c" "schedulable segs (windowTarget ?c t k)"
    "tg = nat (windowTarget ?c t k)" "bt = schedNow e k + (?d + real k * 100)"
    by (auto simp: scheduledEntries_def Let_def)
  have c6: "?c \<le> 6" using r(2,3) by (rule breakCount_range)
  from k(2) have t0: "0 \<le> windowTarget ?c t k" "windowTarget ?c t k < int (length segs)"
    by (simp_all add: schedulable_def)
  then show "tg < length segs" using k(3) by simp
  show "seg_state (segs ! tg) \<noteq> Broken" "seg_state (segs ! tg) \<noteq> Dynamic"
    using k(2,3) by (simp_all add: schedulable_def)
  have "int tg = windowTarget ?c t k" using t0 k(3) by simp
  then have "int tg - int t = int k - int (?c div 2)"
    by (simp add: windowTarget_def)
  moreover have "int k - int (?c div 2) \<le> 3" "- 3 \<le> int k - int (?c div 2)"
    using k(1) c6 by linarith+
  ultimately show "\<bar>int tg - int t\<bar> \<le> 3" by linarith
  have "schedNow e 0 \<le> schedNow e k" by (intro mono) simp
  moreover have "0 \<le> rBreakDelay e * 400" using r(1) by simp
  moreover have "0 \<le> real k * 100" by simp
  ultimately show "schedNow e 0 + 200 \<le> bt" unfolding k(4) by linarith
qed

lemma processItems_not_due:
  assumes "\<forall>(si, bt) \<in> set items. currentTime < bt"
  shows "processItems e_of currentTime k items br kept fx = (br, kept @ items, fx)"
  using assms
  by (induction items arbitrary: k kept) auto

lemma processDestructionSequence_not_due:
  assumes "\<forall>(si, bt) \<in> set (destructionSequence br). currentTime < bt"
  shows "processDestructionSequence e_of currentTime br = (br, [])"
  using assms by (simp add: processDestructionSequence_def processItems_not_due)

lemma released_not_schedulable:
  assumes "i < length segs"
  shows "\<not> schedulable (segs[i := releaseSegment e (seg\<lparr>seg_health := 0, seg_state := Broken\<rparr>)]) (int i)"
  using assms by (simp add: schedulable_def releaseSegment_fields)

lemma cascade_schedule:
  assumes i: "i < length (segments br)" and mid: "isMiddleIndex br i"
    and st: "seg_state (segments br ! i) \<noteq> Broken" "seg_state (segments br ! i) \<noteq> Dynamic"
    and lethal: "seg_health (segments br ! i) \<le> damage"
    and clock: "\<forall>j k. j \<le> k \<longrightarrow> schedNow e j \<le> schedNow e k"
    and draws: "0 \<le> rBreakDelay e" "0 \<le> rBreakCount e" "rBreakCount e < 1"
  defines "br' \<equiv> fst (BridgeSegment_takeDamage e i damage br)"
  defines "new \<equiv> scheduledEntries e i (segments br')"
  shows "destructionSequence br' = destructionSequence br @ new"
    and "sorted_wrt (<) (map snd new)"
    and "\<forall>(t, bt) \<in> set new.
           t \<noteq> i \<and> t < length (segments br) \<and> \<bar>int t - int i\<bar> \<le> 3 \<and>
           schedNow e 0 + 200 \<le> bt \<and>
           seg_state (segments br ! t) \<noteq> Broken \<and> seg_state (segments br ! t) \<noteq> Dynamic"
    and "\<forall>t. t \<noteq> i \<longrightarrow> segments br' ! t = segments br ! t"
    and "0 < i \<and> seg_state (segments br ! (i - 1)) \<noteq> Broken \<and>
         seg_state (segments br ! (i - 1)) \<noteq> Dynamic \<longrightarrow> i - 1 \<in> fst ` set new"
proof -
  let ?rel = "releaseSegment e ((segments br ! i)\<lparr>seg_health := 0, seg_state := Broken\<rparr>)"
  have segs: "segments br' = (segments br)[i := ?rel]"
    unfolding br'_def using i st lethal by (rule lethal_hit_segments)
  have mono: "\<And>j k. j \<le> k \<Longrightarrow> schedNow e j \<le> schedNow e k"
    using clock by blast
  show "destructionSequence br' = destructionSequence br @ new"
    unfolding br'_def new_def using lethal_hit_sequence [OF i st lethal, of e] mid by simp
  show "sorted_wrt (<) (map snd new)"
    unfolding new_def using mono by (rule scheduledEntries_sorted)
  show other: "\<forall>t. t \<noteq> i \<longrightarrow> segments br' ! t = segments br ! t"
    by (simp add: segs)
  have reli: "seg_state (segments br' ! i) = Broken \<or> seg_state (segments br' ! i) = Dynamic"
    using i by (simp add: segs releaseSegment_fields)
  show "\<forall>(t, bt) \<in> set new.
           t \<noteq> i \<and> t < length (segments br) \<and> \<bar>int t - int i\<bar> \<le> 3 \<and>
           schedNow e 0 + 200 \<le> bt \<and>
           seg_state (segments br ! t) \<noteq> Broken \<and> seg_state (segments br ! t) \<noteq> Dynamic"
  proof (clarify, intro conjI)
    fix t bt assume m: "(t, bt) \<in> set new"
    note f = scheduledEntries_members [OF m [unfolded new_def] mono draws]
    show ti: "t \<noteq> i" using f(2,3) reli by auto
    show "t < length (segments br)" using f(1) by (simp add: segs)
    show "\<bar>int t - int i\<bar> \<le> 3" by (rule f(4))
    show "schedNow e 0 + 200 \<le> bt" by (rule f(5))
    show "seg_state (segments br ! t) \<noteq> Broken" "seg_state (segments br ! t) \<noteq> Dynamic"
      using f(2,3) ti by (simp_all add: segs)
  qed
  show "0 < i \<and> seg_state (segments br ! (i - 1)) \<noteq> Broken \<and>
         seg_state (segments br ! (i - 1)) \<noteq> Dynamic \<longrightarrow> i - 1 \<in> fst ` set new"
  proof
    assume a: "0 < i \<and> seg_state (segments br ! (i - 1)) \<noteq> Broken \<and>
         seg_state (segments br ! (i - 1)) \<noteq> Dynamic"
    let ?c = "3 + nat \<lfloor>rBreakCount e * 4\<rfloor>"
    let ?k = "?c div 2 - 1"
    have k: "?k < ?c" by linarith
    have "1 \<le> ?c div 2" by linarith
    then have wt: "windowTarget ?c i ?k = int i - 1"
      by (simp add: windowTarget_def of_nat_diff)
    from a have ipos: "0 < i" by simp
    have ne: "i - 1 \<noteq> i" "i - 1 < length (segments br)" "nat (int i - 1) = i - 1"
      using ipos i by linarith+
    have "segments br' ! (i - 1) = segments br ! (i - 1)"
      using ne(1) other by blast
    then have "schedulable (segments br') (int i - 1)"
      using a ne by (simp add: schedulable_def segs)
    then have "?k \<in> set (filter (\<lambda>k. schedulable (segments br') (windowTarget ?c i k)) [0..<?c])"
      using k wt by simp
    then have "nat (windowTarget ?c i ?k) \<in> fst ` set new"
      unfolding new_def scheduledEntries_def Let_def by (force simp: image_iff)
    moreover have "nat (windowTarget ?c i ?k) = i - 1"
      by (simp only: wt ne(3))
    ultimately show "i - 1 \<in> fst ` set new"
      by (simp only:)
  qed
qed

text \<open>
  The break of a segment away from the middle schedules nothing: segment 0 of eight.
\<close>

theorem C8_edge_break_counterexample:
  "seg_state (segments (fst (BridgeSegment_takeDamage quietSegEnv 0 200 scenarioBridge)) ! 0)
     = Dynamic \<and>
   destructionSequence (fst (BridgeSegment_takeDamage quietSegEnv 0 200 scenarioBridge)) = []"
proof -
  have i: "0 < length (segments scenarioBridge)"
    and st: "seg_state (segments scenarioBridge ! 0) \<noteq> Broken"
      "seg_state (segments scenarioBridge ! 0) \<noteq> Dynamic"
    and l: "seg_health (segments scenarioBridge ! 0) \<le> 200"
    by (simp_all add: scenarioBridge_segments)
  show ?thesis
    using lethal_hit_segments [OF i st l, of quietSegEnv]
      lethal_hit_sequence [OF i st l, of quietSegEnv] i
    by (simp add: scenarioBridge_middle scenarioBridge_segments releaseSegment_fields)
qed

text \<open>
  C8, amended. When a segment within 1 of the middle position breaks through
  \<open>BridgeSegment.takeDamage\<close>, the bridge appends to its destruction sequence one entry
  for each position of a window of 3 to 6 consecutive positions around the trigger that
  lies on the deck and whose segment is neither broken nor dynamic; the trigger itself
  is never among them, and its left neighbour is when it is not yet broken. The entry
  of iteration \<open>k\<close> has the break time \<open>Date.now() + breakDelay + 100 k\<close>, with
  \<open>breakDelay\<close> in \<open>[200, 600)\<close>: the new break times increase strictly in the order
  of the queue, and each lies at least 200 ms after the first reading of the clock. The
  triggering call changes no other segment, and the destruction pass of \<open>Bridge.update\<close>
  changes nothing as long as its clock reading is before every queued break time.
\<close>

theorem C8_cascade_schedule:
  assumes "i < length (segments br)" and "isMiddleIndex br i"
    and "seg_state (segments br ! i) \<noteq> Broken" "seg_state (segments br ! i) \<noteq> Dynamic"
    and "seg_health (segments br ! i) \<le> damage"
    and "\<forall>j k. j \<le> k \<longrightarrow> schedNow e j \<le> schedNow e k"
    and "0 \<le> rBreakDelay e" "0 \<le> rBreakCount e" "rBreakCount e < 1"
  shows
    "(let br' = fst (BridgeSegment_takeDamage e i damage br);
          new = scheduledEntries e i (segments br')
      in destructionSequence br' = destructionSequence br @ new \<and>
         sorted_wrt (<) (map snd new) \<and>
         (\<forall>(t, bt) \<in> set new.
             t \<noteq> i \<and> t < length (segments br) \<and> \<bar>int t - int i\<bar> \<le> 3 \<and>
             schedNow e 0 + 200 \<le> bt \<and>
             seg_state (segments br ! t) \<noteq> Broken \<and> seg_state (segments br ! t) \<noteq> Dynamic) \<and>
         (\<forall>t. t \<noteq> i \<longrightarrow> segments br' ! t = segments br ! t) \<and>
         (0 < i \<and> seg_state (segments br ! (i - 1)) \<noteq> Broken \<and>
          seg_state (segments br ! (i - 1)) \<noteq> Dynamic \<longrightarrow> i - 1 \<in> fst ` set new) \<and>
         (\<forall>e_of currentTime.
             (\<forall>(t, bt) \<in> set (destructionSequence br'). currentTime < bt) \<longrightarrow>
             processDestructionSequence e_of currentTime br' = (br', [])))"
  unfolding Let_def
  using cascade_schedule [OF assms] processDestructionSequence_not_due
  by (intro conjI allI impI) blast+

lemma quietSegEnv_fields:
  "rBreakDelay quietSegEnv = 1/2" "rBreakCount quietSegEnv = 1/2"
  "schedNow quietSegEnv k = 1000"
  by (simp_all add: quietSegEnv_def)

theorem C8_cascade_schedule_witness:
  "4 < length (segments scenarioBridge) \<and> isMiddleIndex scenarioBridge 4 \<and>
   seg_state (segments scenarioBridge ! 4) = Intact \<and>
   seg_health (segments scenarioBridge ! 4) \<le> 200 \<and>
   destructionSequence (fst (BridgeSegment_takeDamage quietSegEnv 4 200 scenarioBridge)) =
     [(2, 1400), (3, 1500), (5, 1700), (6, 1800)] \<and>
   processDestructionSequence (\<lambda>k. quietSegEnv) 1016
       (fst (BridgeSegment_takeDamage quietSegEnv 4 200 scenarioBridge)) =
     (fst (BridgeSegment_takeDamage quietSegEnv 4 200 scenarioBridge), [])"
proof -
  have i: "4 < length (segments scenarioBridge)"
    and st: "seg_state (segments scenarioBridge ! 4) \<noteq> Broken"
      "seg_state (segments scenarioBridge ! 4) \<noteq> Dynamic"
    and l: "seg_health (segments scenarioBridge ! 4) \<le> 200"
    and c: "\<forall>j k. j \<le> k \<longrightarrow> schedNow quietSegEnv j \<le> schedNow quietSegEnv k"
    and r: "0 \<le> rBreakDelay quietSegEnv" "0 \<le> rBreakCount quietSegEnv"
      "rBreakCount quietSegEnv < 1"
    by (simp_all add: scenarioBridge_segments quietSegEnv_fields)
  note t = C8_cascade_schedule [OF i scenarioBridge_middle(1) st l c r, unfolded Let_def]
  have segs: "segments (fst (BridgeSegment_takeDamage quietSegEnv 4 200 scenarioBridge)) =
      (segments scenarioBridge)[4 := releaseSegment quietSegEnv
         ((segments scenarioBridge ! 4)\<lparr>seg_health := 0, seg_state := Broken\<rparr>)]"
    using i st l by (rule lethal_hit_segments)
  have upt5: "[0..<5] = [0, 1, 2, 3, 4]"
    by (simp add: upt_rec)
  have new: "scheduledEntries quietSegEnv 4
      (segments (fst (BridgeSegment_takeDamage quietSegEnv 4 200 scenarioBridge))) =
      [(2, 1400), (3, 1500), (5, 1700), (6, 1800)]"
    by (simp add: scheduledEntries_def Let_def quietSegEnv_fields upt5 windowTarget_def
        schedulable_def segs scenarioBridge_segments releaseSegment_fields)
  have seq: "destructionSequence (fst (BridgeSegment_takeDamage quietSegEnv 4 200 scenarioBridge)) =
      [(2, 1400), (3, 1500), (5, 1700), (6, 1800)]"
    using t new by (simp add: scenarioBridge_segments)
  have "processDestructionSequence (\<lambda>k. quietSegEnv) 1016
       (fst (BridgeSegment_takeDamage quietSegEnv 4 200 scenarioBridge)) =
     (fst (BridgeSegment_takeDamage quietSegEnv 4 200 scenarioBridge), [])"
    using t seq by simp
  then show ?thesis
    using seq by (simp add: scenarioBridge_segments scenarioBridge_middle)
qed

section \<open>Detonation of the sticky bombs\<close>

lemma secondPass_disarmed:
  "\<forall>bomb \<in> set (fst (secondPass r bombs exs)). \<not> isArmed bomb"
  by (auto simp: secondPass_def)

lemma detachStickyBombs_disarmed:
  "\<forall>bomb \<in> set bombs. \<not> isArmed bomb \<Longrightarrow>
   \<forall>bomb \<in> set (detachStickyBombs ref bombs). \<not> isArmed bomb"
  by (auto simp: detachStickyBombs_def)

lemma buildingTakeDamage_frame:
  "staticStructures (buildingTakeDamage e i damage distance maxDistance w) = staticStructures w"
  "currentCityId (buildingTakeDamage e i damage distance maxDistance w) = currentCityId w"
  "length (buildings (buildingTakeDamage e i damage distance maxDistance w)) = length (buildings w)"
  by (simp_all add: buildingTakeDamage_def split: prod.splits)

lemma buildingTakeDamage_disarmed:
  "\<forall>bomb \<in> set (stickyBombs w). \<not> isArmed bomb \<Longrightarrow>
   \<forall>bomb \<in> set (stickyBombs (buildingTakeDamage e i damage distance maxDistance w)).
      \<not> isArmed bomb"
  using detachStickyBombs_disarmed
  by (simp add: buildingTakeDamage_def split: prod.splits)

lemma applyAccumulated_frame:
  "staticStructures (applyAccumulated e sm entry w) = staticStructures w"
  "currentCityId (applyAccumulated e sm entry w) = currentCityId w"
  "length (buildings (applyAccumulated e sm entry w)) = length (buildings w)"
  by (simp_all add: applyAccumulated_def Let_def buildingTakeDamage_frame split: prod.splits)

lemma applyAccumulated_disarmed:
  "\<forall>bomb \<in> set (stickyBombs w). \<not> isArmed bomb \<Longrightarrow>
   \<forall>bomb \<in> set (stickyBombs (applyAccumulated e sm entry w)). \<not> isArmed bomb"
  using buildingTakeDamage_disarmed
  by (simp add: applyAccumulated_def Let_def split: prod.splits)

lemma thirdPass_frame:
  "staticStructures (thirdPass e dm sm w) = staticStructures w"
  "currentCityId (thirdPass e dm sm w) = currentCityId w"
  "length (buildings (thirdPass e dm sm w)) = length (buildings w)"
  unfolding thirdPass_def
  by (induction dm arbitrary: w; simp add: applyAccumulated_frame)+

lemma thirdPass_disarmed:
  "\<forall>bomb \<in> set (stickyBombs w). \<not> isArmed bomb \<Longrightarrow>
   \<forall>bomb \<in> set (stickyBombs (thirdPass e dm sm w)). \<not> isArmed bomb"
  unfolding thirdPass_def
proof (induction dm arbitrary: w)
  case Nil
  then show ?case by simp
next
  case (Cons entry dm)
  have "\<forall>bomb \<in> set (stickyBombs (applyAccumulated e sm entry w)). \<not> isArmed bomb"
    using Cons.prems by (rule applyAccumulated_disarmed)
  then show ?case using Cons.IH by simp
qed

lemma bridge_pass_disarmed:
  "\<forall>kb \<in> set kbs. \<not> isArmed (snd kb) \<Longrightarrow>
   foldl (\<lambda>w kb. bombDamagesBridges e r kb w) w kbs = w"
  by (induction kbs arbitrary: w) (auto simp: bombDamagesBridges_def)

lemma fourthPass_disarmed:
  assumes "\<forall>bomb \<in> set (stickyBombs w). \<not> isArmed bomb"
  shows "fourthPass e r w = w"
proof -
  have "\<forall>kb \<in> set (enumerate 0 (stickyBombs w)). \<not> isArmed (snd kb)"
    using assms by (auto simp: in_set_enumerate_eq)
  then show ?thesis
    by (simp add: fourthPass_def bridge_pass_disarmed)
qed

text \<open>
  C10. \<open>detonateAllStickyBombs\<close> leaves every static structure, so every bridge, as it
  was, and returns with an empty list of sticky bombs: the second pass disarms every
  bomb, the third keeps them disarmed, and the fourth skips a disarmed bomb.
\<close>

theorem C10_bridges_untouched:
  "staticStructures (detonateAllStickyBombs e w) = staticStructures w \<and>
   stickyBombs (detonateAllStickyBombs e w) = []"
proof -
  let ?r = "detonationRadius e"
  obtain bombs1 dm sm where p1: "firstPass ?r (buildings w) (stickyBombs w) = (bombs1, dm, sm)"
    by (cases "firstPass ?r (buildings w) (stickyBombs w)")
  obtain bombs2 exs where p2: "secondPass ?r bombs1 (explosions w) = (bombs2, exs)"
    by (cases "secondPass ?r bombs1 (explosions w)")
  let ?w2 = "w\<lparr>stickyBombs := bombs2, explosions := exs\<rparr>"
  let ?w3 = "thirdPass e dm sm ?w2"
  have "\<forall>bomb \<in> set bombs2. \<not> isArmed bomb"
    using secondPass_disarmed [of ?r bombs1 "explosions w"] p2 by simp
  then have "\<forall>bomb \<in> set (stickyBombs ?w3). \<not> isArmed bomb"
    by (intro thirdPass_disarmed) simp
  then have p4: "fourthPass e ?r ?w3 = ?w3"
    by (rule fourthPass_disarmed)
  have "staticStructures ?w3 = staticStructures w"
    by (simp add: thirdPass_frame)
  then show ?thesis
    unfolding detonateAllStickyBombs_def Let_def p1 p2 prod.case p4 by simp
qed

section \<open>The cap of the detonation\<close>

lemma accumulate_distinct:
  "distinct (map fst (fst maps)) \<Longrightarrow> distinct (map fst (fst (accumulate r bomb ib maps)))"
  by (cases ib; cases maps) (simp add: accumulate_def Let_def distinct_update)

lemma accumulate_buildings_distinct:
  "distinct (map fst (fst maps)) \<Longrightarrow>
   distinct (map fst (fst (foldl (\<lambda>m ib. accumulate r bomb ib m) maps ibs)))"
  by (induction ibs arbitrary: maps) (simp_all add: accumulate_distinct)

lemma firstPass_distinct:
  "distinct (map fst (fst (snd (firstPass r bs bombs))))"
proof -
  have "distinct (map fst (fst maps)) \<Longrightarrow>
      distinct (map fst (fst (foldl (\<lambda>maps bomb.
               if \<not> isArmed bomb then maps
               else foldl (\<lambda>m ib. accumulate r bomb ib m) maps (enumerate 0 bs)) maps bombs)))"
    for maps
    by (induction bombs arbitrary: maps) (simp_all add: accumulate_buildings_distinct)
  from this [of "([], [])"] show ?thesis
    by (simp add: firstPass_def)
qed

lemma applyAccumulated_other:
  "i \<noteq> j \<Longrightarrow> buildings (applyAccumulated e sm (j, t) w) ! i = buildings w ! i"
  by (simp add: applyAccumulated_def Let_def buildingTakeDamage_def split: prod.splits)

lemma applyAccumulated_same:
  assumes "i < length (buildings w)"
  shows "buildings (applyAccumulated e sm (i, t) w) ! i =
           (if state (buildings w ! i) \<noteq> Collapsed
            then applyShake (fst (shakeDraws e i)) (snd (shakeDraws e i)) (min (mapGet sm i) 12)
                   (fst (takeDamage (hitEnv e i) (min t 85) 0 150 (buildings w ! i)))
            else buildings w ! i)"
  using assms
  by (simp add: applyAccumulated_def Let_def buildingTakeDamage_def split: prod.splits)

lemma takeDamage_health_lower:
  assumes "0 \<le> materialResistance b" "damage \<le> 85"
  shows "health b - 85 * materialResistance b
           \<le> health (fst (takeDamage e damage 0 maxDistance b))"
proof (cases "destroyed b")
  case True
  then show ?thesis using assms(1) by (simp add: takeDamage_destroyed)
next
  case False
  have "damage * materialResistance b \<le> 85 * materialResistance b"
    using assms by (simp add: mult_right_mono)
  then have "health b - 85 * materialResistance b \<le> newHealth damage 0 maxDistance b"
    by (simp add: newHealth_def damageFactor_def)
  then show ?thesis
    using False by (simp add: takeDamage_health)
qed

lemma applyAccumulated_lower:
  assumes "i < length (buildings w)" "0 \<le> materialResistance (buildings w ! i)"
  shows "health (buildings w ! i) - 85 * materialResistance (buildings w ! i)
           \<le> health (buildings (applyAccumulated e sm (i, t) w) ! i)"
proof (cases "state (buildings w ! i) = Collapsed")
  case True
  then show ?thesis using assms by (simp add: applyAccumulated_same)
next
  case False
  have "min t 85 \<le> 85" by simp
  from takeDamage_health_lower [OF assms(2) this, of "hitEnv e i" 150]
  show ?thesis using assms(1) False by (simp add: applyAccumulated_same applyShake_fields)
qed

lemma thirdPass_other:
  "i \<notin> fst ` set dm \<Longrightarrow> buildings (thirdPass e dm sm w) ! i = buildings w ! i"
  unfolding thirdPass_def
proof (induction dm arbitrary: w)
  case Nil
  then show ?case by simp
next
  case (Cons entry dm)
  obtain j t where entry: "entry = (j, t)" by (cases entry)
  have "i \<noteq> j" using Cons.prems entry by auto
  then have "buildings (applyAccumulated e sm entry w) ! i = buildings w ! i"
    unfolding entry by (rule applyAccumulated_other)
  moreover have "i \<notin> fst ` set dm" using Cons.prems by auto
  ultimately show ?case using Cons.IH by simp
qed

lemma thirdPass_lower:
  assumes "distinct (map fst dm)" "i < length (buildings w)"
    and "0 \<le> materialResistance (buildings w ! i)"
  shows "health (buildings w ! i) - 85 * materialResistance (buildings w ! i)
           \<le> health (buildings (thirdPass e dm sm w) ! i)"
  using assms
proof (induction dm arbitrary: w)
  case Nil
  then show ?case by (simp add: thirdPass_def)
next
  case (Cons entry dm)
  obtain j t where entry: "entry = (j, t)" by (cases entry)
  have step: "thirdPass e (en # dm) sm w = thirdPass e dm sm (applyAccumulated e sm en w)" for en
    by (simp add: thirdPass_def)
  show ?case
  proof (cases "j = i")
    case True
    then have "i \<notin> fst ` set dm" using Cons.prems(1) entry by auto
    then have "buildings (thirdPass e dm sm (applyAccumulated e sm (i, t) w)) ! i =
        buildings (applyAccumulated e sm (i, t) w) ! i"
      by (rule thirdPass_other)
    then show ?thesis
      using applyAccumulated_lower [OF Cons.prems(2,3), of e sm t]
      by (simp add: step entry True)
  next
    case False
    then have "i \<noteq> j" by simp
    then have same: "buildings (applyAccumulated e sm entry w) ! i = buildings w ! i"
      unfolding entry by (rule applyAccumulated_other)
    have "health (buildings (applyAccumulated e sm entry w) ! i) -
        85 * materialResistance (buildings (applyAccumulated e sm entry w) ! i)
        \<le> health (buildings (thirdPass e dm sm (applyAccumulated e sm entry w)) ! i)"
      using Cons.prems by (intro Cons.IH) (simp_all add: same applyAccumulated_frame)
    then show ?thesis by (simp add: step same)
  qed
qed

lemma detonate_buildings_eq:
  assumes p1: "firstPass (detonationRadius e) (buildings w) (stickyBombs w)
                 = (bombs1, dm, sm)"
  shows "buildings (detonateAllStickyBombs e w) =
           buildings (thirdPass e dm sm
             (w\<lparr>stickyBombs :=
                  fst (secondPass (detonationRadius e) bombs1 (explosions w)),
                explosions :=
                  snd (secondPass (detonationRadius e) bombs1 (explosions w))\<rparr>))"
proof -
  let ?r = "detonationRadius e"
  obtain bombs2 exs where p2: "secondPass ?r bombs1 (explosions w) = (bombs2, exs)"
    by (cases "secondPass ?r bombs1 (explosions w)")
  let ?w2 = "w\<lparr>stickyBombs := bombs2, explosions := exs\<rparr>"
  let ?w3 = "thirdPass e dm sm ?w2"
  have "\<forall>bomb \<in> set bombs2. \<not> isArmed bomb"
    using secondPass_disarmed [of ?r bombs1 "explosions w"] p2 by simp
  then have "\<forall>bomb \<in> set (stickyBombs ?w3). \<not> isArmed bomb"
    by (intro thirdPass_disarmed) simp
  then have p4: "fourthPass e ?r ?w3 = ?w3"
    by (rule fourthPass_disarmed)
  have "buildings (detonateAllStickyBombs e w) = buildings ?w3"
    unfolding detonateAllStickyBombs_def Let_def p1 p2 prod.case p4 by simp
  then show ?thesis by (simp add: p2)
qed

lemma detonate_buildings:
  "\<exists>dm sm bombs2 exs.
     distinct (map fst dm) \<and>
     buildings (detonateAllStickyBombs e w) =
       buildings (thirdPass e dm sm (w\<lparr>stickyBombs := bombs2, explosions := exs\<rparr>))"
proof -
  let ?r = "detonationRadius e"
  obtain bombs1 dm sm where p1: "firstPass ?r (buildings w) (stickyBombs w) = (bombs1, dm, sm)"
    by (cases "firstPass ?r (buildings w) (stickyBombs w)")
  have d: "distinct (map fst dm)"
    using firstPass_distinct [of ?r "buildings w" "stickyBombs w"] p1 by simp
  from detonate_buildings_eq [OF p1] d show ?thesis by blast
qed

lemma detonate_lower:
  assumes "i < length (buildings w)" "0 \<le> materialResistance (buildings w ! i)"
  shows "health (buildings w ! i) - 85 * materialResistance (buildings w ! i)
           \<le> health (buildings (detonateAllStickyBombs e w) ! i)"
proof -
  obtain dm sm bombs2 exs where d: "distinct (map fst dm)"
    and b: "buildings (detonateAllStickyBombs e w) =
       buildings (thirdPass e dm sm (w\<lparr>stickyBombs := bombs2, explosions := exs\<rparr>))"
    using detonate_buildings by blast
  show ?thesis
    unfolding b
    using thirdPass_lower [OF d, of i "w\<lparr>stickyBombs := bombs2, explosions := exs\<rparr>" e sm] assms
    by simp
qed

lemma stickyBuilding_fields:
  "health stickyBuilding = 300" "maxHealth stickyBuilding = 300"
  "materialResistance stickyBuilding = 1.25" "state stickyBuilding = Alive"
  "\<not> destroyed stickyBuilding" "getCenterX stickyBuilding = 50" "getCenterY stickyBuilding = 100"
  by (simp_all add: stickyBuilding_def Building_new_def getCenterX_def getCenterY_def)

lemma accumulate_centreBomb:
  "accumulate 150 centreBomb (0, stickyBuilding) (dm, sm) =
     (AList.update 0 (mapGet dm 0 + 50) dm, AList.update 0 (max (mapGet sm 0) 8) sm)"
  by (simp add: accumulate_def Let_def stickyBuilding_fields centreBomb_def)

lemma stickyWorld_firstPass:
  "snd (firstPass (detonationRadius stickyEnv)
          (buildings stickyWorld) (stickyBombs stickyWorld)) = ([(0, 250)], [(0, 8)])"
proof -
  have r: "detonationRadius stickyEnv = 150"
    by (simp add: detonationRadius_def stickyEnv_def)
  have a: "isArmed centreBomb" by (simp add: centreBomb_def)
  show ?thesis
    unfolding r
    by (simp add: firstPass_def stickyWorld_def enumerate_eq_zip a accumulate_centreBomb
        mapGet_def)
qed

lemma stickyWorld_health:
  "health (buildings (detonateAllStickyBombs stickyEnv stickyWorld) ! 0) = 193.75"
proof -
  let ?r = "detonationRadius stickyEnv"
  obtain bombs1 where p1: "firstPass ?r (buildings stickyWorld) (stickyBombs stickyWorld)
      = (bombs1, [(0, 250)], [(0, 8)])"
    using stickyWorld_firstPass
    by (cases "firstPass ?r (buildings stickyWorld) (stickyBombs stickyWorld)") simp
  have nh: "newHealth 85 0 150 stickyBuilding = 193.75"
    by (simp add: newHealth_def damageFactor_def stickyBuilding_fields)
  have b0: "buildings stickyWorld = [stickyBuilding]"
    by (simp add: stickyWorld_def)
  show ?thesis
    unfolding detonate_buildings_eq [OF p1]
    by (simp add: thirdPass_def applyAccumulated_same b0 stickyBuilding_fields applyShake_fields
        takeDamage_health nh)
qed

text \<open>
  Five bombs at the centre of a building of health 300 and resistance 1.25: the capped
  total 85 is multiplied by the resistance, and the health falls to 193.75, below 215.
\<close>

theorem C6_sticky_cap_counterexample:
  "isArmed centreBomb \<and> stickyBombs stickyWorld = replicate 5 centreBomb \<and>
   health (buildings stickyWorld ! 0) = 300 \<and>
   health (buildings (detonateAllStickyBombs stickyEnv stickyWorld) ! 0) = 193.75 \<and>
   \<not> 215 \<le> health (buildings (detonateAllStickyBombs stickyEnv stickyWorld) ! 0)"
  by (simp add: stickyWorld_health)
     (simp add: stickyWorld_def stickyBuilding_fields centreBomb_def numeral_eq_Suc)

text \<open>
  C6, amended. Whatever bombs are placed, the detonation lowers the health of a building
  by at most the cap 85 multiplied by the resistance of the building. A building of
  health 300 and resistance below 1.3 keeps more than 189.5, so it never reaches 0 in the
  batch; it keeps at least 215 when its resistance is at most 1.
\<close>

theorem C6_sticky_cap:
  assumes "i < length (buildings w)" "0 \<le> materialResistance (buildings w ! i)"
  shows "health (buildings w ! i) - 85 * materialResistance (buildings w ! i)
           \<le> health (buildings (detonateAllStickyBombs e w) ! i) \<and>
         (health (buildings w ! i) = 300 \<and> materialResistance (buildings w ! i) < 1.3 \<longrightarrow>
            189.5 < health (buildings (detonateAllStickyBombs e w) ! i)) \<and>
         (health (buildings w ! i) = 300 \<and> materialResistance (buildings w ! i) \<le> 1 \<longrightarrow>
            215 \<le> health (buildings (detonateAllStickyBombs e w) ! i))"
  using detonate_lower [OF assms, of e] by auto

theorem C6_sticky_cap_witness:
  "0 < length (buildings stickyWorld) \<and> 0 \<le> materialResistance (buildings stickyWorld ! 0) \<and>
   health (buildings stickyWorld ! 0) = 300 \<and> materialResistance (buildings stickyWorld ! 0) < 1.3 \<and>
   189.5 < health (buildings (detonateAllStickyBombs stickyEnv stickyWorld) ! 0)"
proof -
  have b0: "buildings stickyWorld = [stickyBuilding]"
    by (simp add: stickyWorld_def)
  have h: "0 < length (buildings stickyWorld)" "0 \<le> materialResistance (buildings stickyWorld ! 0)"
    by (simp_all add: b0 stickyBuilding_fields)
  show ?thesis
    using C6_sticky_cap [OF h, of stickyEnv] h
    by (simp add: b0 stickyBuilding_fields)
qed

section \<open>The caps of the debris pools\<close>

lemma markDoNotDraw_length: "length (markDoNotDraw marked ps) = length ps"
  unfolding markDoNotDraw_def by (induction marked arbitrary: ps) simp_all

lemma markDoNotDraw_nth:
  assumes "i < length ps"
  shows "markDoNotDraw marked ps ! i =
           (if i \<in> set marked then (ps ! i)\<lparr>doNotDraw := True\<rparr> else ps ! i)"
  using assms unfolding markDoNotDraw_def
proof (induction marked arbitrary: ps)
  case Nil
  then show ?case by simp
next
  case (Cons j marked)
  let ?ps1 = "ps[j := (ps ! j)\<lparr>doNotDraw := True\<rparr>]"
  have len: "i < length ?ps1" using Cons.prems by simp
  have step: "foldl (\<lambda>ps i. ps[i := (ps ! i)\<lparr>doNotDraw := True\<rparr>]) ps (j # marked) =
      foldl (\<lambda>ps i. ps[i := (ps ! i)\<lparr>doNotDraw := True\<rparr>]) ?ps1 marked"
    by simp
  show ?case
    unfolding step Cons.IH [OF len]
    using Cons.prems by (cases "i = j") simp_all
qed

lemma sleepingIndices_set:
  "set (sleepingIndices ps) = {i. i < length ps \<and> sleeping (ps ! i) \<and> settledTime (ps ! i) \<noteq> None}"
  by (auto simp: sleepingIndices_def)

lemma sleepingIndices_distinct: "distinct (sleepingIndices ps)"
  by (simp add: sleepingIndices_def)

lemma evicted_props:
  "set (evicted cap ps) \<subseteq> set (sleepingIndices ps)"
  "distinct (evicted cap ps)"
  "length (evicted cap ps) = min (length ps - cap) (length (sleepingIndices ps))"
proof -
  let ?s = "sort_key (settledKey ps) (sleepingIndices ps)"
  have "set (take (min (length ps - cap) (length ?s)) ?s) \<subseteq> set ?s"
    by (rule set_take_subset)
  then show "set (evicted cap ps) \<subseteq> set (sleepingIndices ps)"
    by (simp add: evicted_def Let_def)
  show "distinct (evicted cap ps)"
    by (simp add: evicted_def Let_def sleepingIndices_distinct)
  show "length (evicted cap ps) = min (length ps - cap) (length (sleepingIndices ps))"
    by (simp add: evicted_def Let_def)
qed

lemma evicted_oldest:
  assumes i: "i \<in> set (evicted cap ps)"
    and j: "j \<in> set (sleepingIndices ps)" "j \<notin> set (evicted cap ps)"
  shows "settledKey ps i \<le> settledKey ps j"
proof -
  let ?s = "sort_key (settledKey ps) (sleepingIndices ps)"
  let ?n = "min (length ps - cap) (length ?s)"
  have ev: "evicted cap ps = take ?n ?s" by (simp add: evicted_def Let_def)
  have "j \<in> set ?s" using j(1) by simp
  then have "j \<in> set (take ?n ?s) \<union> set (drop ?n ?s)"
    by (simp only: set_append [symmetric] append_take_drop_id)
  then have jd: "j \<in> set (drop ?n ?s)" using j(2) ev by simp
  have "sorted (map (settledKey ps) (take ?n ?s) @ map (settledKey ps) (drop ?n ?s))"
    by (simp only: map_append [symmetric] append_take_drop_id) simp
  then have "\<forall>a \<in> set (map (settledKey ps) (take ?n ?s)).
      \<forall>b \<in> set (map (settledKey ps) (drop ?n ?s)). a \<le> b"
    unfolding sorted_append by blast
  moreover have "settledKey ps i \<in> set (map (settledKey ps) (take ?n ?s))"
    using i unfolding ev by (simp only: set_map) (rule imageI)
  moreover have "settledKey ps j \<in> set (map (settledKey ps) (drop ?n ?s))"
    using jd by (simp only: set_map) (rule imageI)
  ultimately show ?thesis by blast
qed

lemma capBySleeping_length: "length (capBySleeping cap ps) = length ps"
  by (simp add: capBySleeping_def markDoNotDraw_length)

lemma capBySleeping_nth:
  assumes "i < length ps"
  shows "capBySleeping cap ps ! i =
           (if cap < length ps \<and> i \<in> set (evicted cap ps)
            then (ps ! i)\<lparr>doNotDraw := True\<rparr> else ps ! i)"
  using assms by (simp add: capBySleeping_def markDoNotDraw_nth)

lemma capBySleeping_live:
  assumes over: "cap < length ps"
    and enough: "length ps - cap \<le> length (sleepingIndices ps)"
  shows "liveCount (capBySleeping cap ps) \<le> cap"
proof -
  let ?ps' = "capBySleeping cap ps"
  let ?ev = "set (evicted cap ps)"
  have sub: "?ev \<subseteq> {0..<length ps}"
    using evicted_props(1) [of cap ps] by (auto simp: sleepingIndices_set)
  have cev: "card ?ev = length ps - cap"
    using evicted_props(2,3) [of cap ps] enough by (simp add: distinct_card)
  have "{i. i < length ?ps' \<and> \<not> doNotDraw (?ps' ! i)} \<subseteq> {0..<length ps} - ?ev"
    using over by (auto simp: capBySleeping_length capBySleeping_nth)
  then have "card {i. i < length ?ps' \<and> \<not> doNotDraw (?ps' ! i)} \<le> card ({0..<length ps} - ?ev)"
    by (intro card_mono) simp_all
  also have "\<dots> = length ps - card ?ev"
    using sub by (simp add: card_Diff_subset finite_subset)
  also have "\<dots> = cap" using cev over by simp
  finally show ?thesis
    by (simp add: liveCount_def length_filter_conv_card)
qed

lemma capBySplice_length: "length (capBySplice cap pool) \<le> cap"
  by (simp add: capBySplice_def)

lemma capBySplice_drop: "capBySplice cap pool = drop (length pool - cap) pool"
  by (simp add: capBySplice_def)

lemma flying_pool_unmarked:
  "capBySleeping cap (replicate n flying) = replicate n flying"
proof -
  have "sleepingIndices (replicate n flying) = []"
    by (simp add: sleepingIndices_def flying_def filter_empty_conv)
  then have "evicted cap (replicate n flying) = []"
    by (simp add: evicted_def Let_def)
  then show ?thesis
    by (simp add: capBySleeping_def markDoNotDraw_def)
qed

text \<open>
  A \<open>particles\<close> pool of 1501 fragments in flight, as after the twelve unguarded sparks of
  a missile: none sleeps, the cap block marks none, and 1501 fragments stay live.
\<close>

theorem C9_live_count_counterexample:
  "length (replicate 1501 flying) = 1501 \<and> MAX_PARTICLES = 1500 \<and>
   liveCount (capBySleeping MAX_PARTICLES (replicate 1501 flying)) = 1501 \<and>
   \<not> liveCount (capBySleeping MAX_PARTICLES (replicate 1501 flying)) \<le> MAX_PARTICLES"
  by (simp add: flying_pool_unmarked liveCount_def MAX_PARTICLES_def) (simp add: flying_def)

text \<open>
  C9, amended. The cap blocks of the \<open>buildingDebris\<close>, \<open>microDebris\<close> and
  \<open>dustParticles\<close> pools leave at most 400, 200 and 150 fragments, cutting the pool from
  the front. The cap block of the \<open>particles\<close> pool deletes nothing: when the pool
  exceeds 1500 it sets \<open>doNotDraw\<close> on the positions of \<^const>\<open>evicted\<close> and changes no
  other fragment; these are as many sleeping fragments with a settled time as the
  excess, or all of them when there are fewer, each settled no later than every such
  fragment left unmarked; and when there are at least as many as the excess, at most
  1500 fragments stay live.
\<close>

theorem C9_pool_caps:
  "length (capBySplice MAX_BUILDING_DEBRIS bd) \<le> 400 \<and>
   length (capBySplice MAX_MICRO_DEBRIS md) \<le> 200 \<and>
   length (capBySplice MAX_DUST_PARTICLES dp) \<le> 150 \<and>
   capBySplice MAX_MICRO_DEBRIS md = drop (length md - 200) md \<and>
   length (capBySleeping MAX_PARTICLES ps) = length ps \<and>
   (\<forall>i < length ps.
      capBySleeping MAX_PARTICLES ps ! i =
        (if 1500 < length ps \<and> i \<in> set (evicted MAX_PARTICLES ps)
         then (ps ! i)\<lparr>doNotDraw := True\<rparr> else ps ! i)) \<and>
   distinct (evicted MAX_PARTICLES ps) \<and>
   length (evicted MAX_PARTICLES ps) = min (length ps - 1500) (length (sleepingIndices ps)) \<and>
   (\<forall>i \<in> set (evicted MAX_PARTICLES ps).
      i < length ps \<and> sleeping (ps ! i) \<and> settledTime (ps ! i) \<noteq> None \<and>
      (\<forall>j. j < length ps \<and> sleeping (ps ! j) \<and> settledTime (ps ! j) \<noteq> None \<and>
           j \<notin> set (evicted MAX_PARTICLES ps) \<longrightarrow> settledKey ps i \<le> settledKey ps j)) \<and>
   (1500 < length ps \<and> length ps - 1500 \<le> length (sleepingIndices ps) \<longrightarrow>
      liveCount (capBySleeping MAX_PARTICLES ps) \<le> 1500)"
proof (intro conjI)
  show "length (capBySplice MAX_BUILDING_DEBRIS bd) \<le> 400"
    using capBySplice_length [of MAX_BUILDING_DEBRIS bd] by (simp add: MAX_BUILDING_DEBRIS_def)
  show "length (capBySplice MAX_MICRO_DEBRIS md) \<le> 200"
    using capBySplice_length [of MAX_MICRO_DEBRIS md] by (simp add: MAX_MICRO_DEBRIS_def)
  show "length (capBySplice MAX_DUST_PARTICLES dp) \<le> 150"
    using capBySplice_length [of MAX_DUST_PARTICLES dp] by (simp add: MAX_DUST_PARTICLES_def)
  show "capBySplice MAX_MICRO_DEBRIS md = drop (length md - 200) md"
    by (simp add: capBySplice_drop MAX_MICRO_DEBRIS_def)
  show "length (capBySleeping MAX_PARTICLES ps) = length ps"
    by (rule capBySleeping_length)
  show "\<forall>i < length ps.
      capBySleeping MAX_PARTICLES ps ! i =
        (if 1500 < length ps \<and> i \<in> set (evicted MAX_PARTICLES ps)
         then (ps ! i)\<lparr>doNotDraw := True\<rparr> else ps ! i)"
    using capBySleeping_nth [of _ ps MAX_PARTICLES] by (simp add: MAX_PARTICLES_def)
  show "distinct (evicted MAX_PARTICLES ps)"
    by (rule evicted_props)
  show "length (evicted MAX_PARTICLES ps) = min (length ps - 1500) (length (sleepingIndices ps))"
    using evicted_props(3) [of MAX_PARTICLES ps] by (simp add: MAX_PARTICLES_def)
  show "\<forall>i \<in> set (evicted MAX_PARTICLES ps).
      i < length ps \<and> sleeping (ps ! i) \<and> settledTime (ps ! i) \<noteq> None \<and>
      (\<forall>j. j < length ps \<and> sleeping (ps ! j) \<and> settledTime (ps ! j) \<noteq> None \<and>
           j \<notin> set (evicted MAX_PARTICLES ps) \<longrightarrow> settledKey ps i \<le> settledKey ps j)"
  proof (intro ballI conjI allI impI)
    fix i assume i: "i \<in> set (evicted MAX_PARTICLES ps)"
    then have "i \<in> set (sleepingIndices ps)"
      using evicted_props(1) by blast
    then show "i < length ps" "sleeping (ps ! i)" "settledTime (ps ! i) \<noteq> None"
      by (simp_all add: sleepingIndices_set)
    fix j assume "j < length ps \<and> sleeping (ps ! j) \<and> settledTime (ps ! j) \<noteq> None \<and>
           j \<notin> set (evicted MAX_PARTICLES ps)"
    then have "j \<in> set (sleepingIndices ps)" "j \<notin> set (evicted MAX_PARTICLES ps)"
      by (simp_all add: sleepingIndices_set)
    with i show "settledKey ps i \<le> settledKey ps j"
      by (rule evicted_oldest)
  qed
  show "1500 < length ps \<and> length ps - 1500 \<le> length (sleepingIndices ps) \<longrightarrow>
      liveCount (capBySleeping MAX_PARTICLES ps) \<le> 1500"
    using capBySleeping_live [of MAX_PARTICLES ps] by (simp add: MAX_PARTICLES_def)
qed

theorem C9_pool_caps_witness:
  "1500 < length (asleep 1 # replicate 1500 flying) \<and>
   length (asleep 1 # replicate 1500 flying) - 1500
     \<le> length (sleepingIndices (asleep 1 # replicate 1500 flying)) \<and>
   liveCount (capBySleeping MAX_PARTICLES (asleep 1 # replicate 1500 flying)) \<le> 1500"
proof -
  have "0 \<in> set (sleepingIndices (asleep 1 # replicate 1500 flying))"
    by (simp add: sleepingIndices_set asleep_def)
  then have "0 < length (sleepingIndices (asleep 1 # replicate 1500 flying))"
    by (rule length_pos_if_in_set)
  then have "1 \<le> length (sleepingIndices (asleep 1 # replicate 1500 flying))"
    by linarith
  moreover have "length (asleep 1 # replicate 1500 flying) = 1501"
    by simp
  ultimately have h: "1500 < length (asleep 1 # replicate 1500 flying) \<and>
      length (asleep 1 # replicate 1500 flying) - 1500
        \<le> length (sleepingIndices (asleep 1 # replicate 1500 flying))"
    by (simp only:) simp
  with C9_pool_caps [of "[]" "[]" "[]" "asleep 1 # replicate 1500 flying"] show ?thesis
    by blast
qed

end
